theory Spec2Isabelle
  imports Main "HOL-Library.Word"
begin

unbundle bit_operations_syntax

section \<open>The cache hierarchy of cache.c\<close>

text \<open>
  A shallow embedding of \<^verbatim>\<open>src/cache.c\<close>: the L1 instruction cache, the L1 data cache
  and the shared L2 cache of a trace-driven simulator. The C program keeps its
  configuration, its statistics and its tag and recency arrays in global variables; here
  the configuration is a record that the access functions only read, and everything
  \<^verbatim>\<open>cache.c\<close> writes is a second record that the functions take and return.
\<close>

subsection \<open>Data\<close>

type_synonym u32 = "32 word"
type_synonym u64 = "64 word"

text \<open>The configuration variables (lines 25 to 39), all \<^verbatim>\<open>uint32_t\<close>.\<close>

record config =
  icacheSets :: u32
  icacheAssoc :: u32
  icacheHitTime :: u32
  dcacheSets :: u32
  dcacheAssoc :: u32
  dcacheHitTime :: u32
  l2cacheSets :: u32
  l2cacheAssoc :: u32
  l2cacheHitTime :: u32
  inclusive :: u32
  blocksize :: u32
  memspeed :: u32

text \<open>
  The statistics (lines 45 to 55, \<^verbatim>\<open>uint64_t\<close>), the eviction signal of the L2 (lines 63
  and 64) and the six arrays (lines 66 to 73). An array \<^verbatim>\<open>uint32_t**\<close> of \<open>sets\<close> rows of
  \<open>assoc\<close> words is a list of lists, the row of set \<open>i\<close> at position \<open>i\<close>.
\<close>

record state =
  icacheRefs :: u64
  icacheMisses :: u64
  icachePenalties :: u64
  dcacheRefs :: u64
  dcacheMisses :: u64
  dcachePenalties :: u64
  l2cacheRefs :: u64
  l2cacheMisses :: u64
  l2cachePenalties :: u64
  l2_did_evict :: bool
  l2_evicted_addr :: u32
  l1i_tag_storage :: "u32 list list"
  l1i_lru_storage :: "u32 list list"
  l1d_tag_storage :: "u32 list list"
  l1d_lru_storage :: "u32 list list"
  l2_tag_storage :: "u32 list list"
  l2_lru_storage :: "u32 list list"

text \<open>
  Two things the C program does have no defined result, and the model returns them as
  faults instead of values: the conversion of \<^verbatim>\<open>log2(0)\<close> (minus infinity) to
  \<^verbatim>\<open>uint32_t\<close> when the block size is 0, and the access to slot 0 of a row that
  \<^verbatim>\<open>calloc(0, ...)\<close> allocated when the associativity is 0.
\<close>

datatype fault = Undefined_Log2 | Out_Of_Bounds

definition UINT32_MAX :: u32 where
  "UINT32_MAX = 0xFFFFFFFF"

text \<open>
  \<^verbatim>\<open>uint32_t w = log2(x)\<close> for \<open>x > 0\<close>: the double is truncated towards zero, which is the
  position of the highest set bit of \<open>x\<close>.
\<close>

fun log2_u32 :: "nat \<Rightarrow> nat" where
  "log2_u32 n = (if n < 2 then 0 else Suc (log2_u32 (n div 2)))"

declare log2_u32.simps [simp del]

subsection \<open>The loops over the ways of one set\<close>

text \<open>
  Every loop of \<^verbatim>\<open>cache.c\<close> is \<^verbatim>\<open>for (size_t i = 0; i < assoc; i++)\<close> over the ways of
  one set: a fold over \<open>[0..<assoc]\<close> whose accumulator holds what the body writes.

  The tag check (lines 148, 237, 329) returns from inside the loop at the first way
  whose stored tag equals the decoded one.
\<close>

definition find_way :: "nat \<Rightarrow> u32 list \<Rightarrow> u32 \<Rightarrow> nat option" where
  "find_way assoc tags tag = find (\<lambda>i. tags ! i = tag) [0..<assoc]"

text \<open>
  Ageing on a hit. Both L1 caches (lines 151 to 155 and 240 to 244) leave a counter that
  holds \<^verbatim>\<open>UINT32_MAX\<close> alone; the L2 (lines 332 to 334) increments every counter.
\<close>

definition l1_bump :: "nat \<Rightarrow> u32 list \<Rightarrow> u32 list" where
  "l1_bump assoc lru =
     fold (\<lambda>j l. if l ! j \<noteq> UINT32_MAX then l[j := l ! j + 1] else l) [0..<assoc] lru"

definition l2_bump :: "nat \<Rightarrow> u32 list \<Rightarrow> u32 list" where
  "l2_bump assoc lru = fold (\<lambda>j l. l[j := l ! j + 1]) [0..<assoc] lru"

text \<open>
  The search for the oldest way on a miss, which ages the counters in the same pass
  (lines 168 to 180, 257 to 269 and 347 to 357). The accumulator is
  \<open>(largest, index_to_evict, lru_storage)\<close>.
\<close>

definition l1_scan :: "nat \<Rightarrow> u32 list \<Rightarrow> u32 \<times> nat \<times> u32 list" where
  "l1_scan assoc lru =
     fold (\<lambda>i (largest, index_to_evict, l).
             (if l ! i > largest then l ! i else largest,
              if l ! i > largest then i else index_to_evict,
              if l ! i \<noteq> UINT32_MAX then l[i := l ! i + 1] else l))
          [0..<assoc] (0, 0, lru)"

definition l2_scan :: "nat \<Rightarrow> u32 list \<Rightarrow> u32 \<times> nat \<times> u32 list" where
  "l2_scan assoc lru =
     fold (\<lambda>i (largest, index_to_evict, l).
             (if l ! i > largest then l ! i else largest,
              if l ! i > largest then i else index_to_evict,
              l[i := l ! i + 1]))
          [0..<assoc] (0, 0, lru)"

text \<open>
  The loop that removes the block the L2 evicted from one L1 set (lines 199 to 205 and
  288 to 294): every way whose tag matches is cleared and marked with \<^verbatim>\<open>UINT32_MAX\<close>.
\<close>

definition l1_evict :: "nat \<Rightarrow> u32 \<Rightarrow> u32 list \<times> u32 list \<Rightarrow> u32 list \<times> u32 list" where
  "l1_evict assoc evicted_tag =
     fold (\<lambda>i (set_to_check, l).
             if set_to_check ! i = evicted_tag
             then (set_to_check[i := 0], l[i := UINT32_MAX])
             else (set_to_check, l))
          [0..<assoc]"

subsection \<open>Initialisation\<close>

text \<open>
  \<^verbatim>\<open>init_cache\<close> (lines 81 to 122) zeroes the statistics, allocates every row with
  \<^verbatim>\<open>calloc\<close> (all tags and counters 0) and clears \<^verbatim>\<open>l2_did_evict\<close>. It does not assign
  \<^verbatim>\<open>l2_evicted_addr\<close>, which keeps whatever it held. The allocations are taken to
  succeed (the code does not check them).
\<close>

definition init_cache :: "config \<Rightarrow> state \<Rightarrow> state" where
  "init_cache cfg s =
     s\<lparr>icacheRefs := 0, icacheMisses := 0, icachePenalties := 0,
       dcacheRefs := 0, dcacheMisses := 0, dcachePenalties := 0,
       l2cacheRefs := 0, l2cacheMisses := 0, l2cachePenalties := 0,
       l1i_tag_storage := replicate (unat (icacheSets cfg)) (replicate (unat (icacheAssoc cfg)) 0),
       l1i_lru_storage := replicate (unat (icacheSets cfg)) (replicate (unat (icacheAssoc cfg)) 0),
       l1d_tag_storage := replicate (unat (dcacheSets cfg)) (replicate (unat (dcacheAssoc cfg)) 0),
       l1d_lru_storage := replicate (unat (dcacheSets cfg)) (replicate (unat (dcacheAssoc cfg)) 0),
       l2_tag_storage := replicate (unat (l2cacheSets cfg)) (replicate (unat (l2cacheAssoc cfg)) 0),
       l2_lru_storage := replicate (unat (l2cacheSets cfg)) (replicate (unat (l2cacheAssoc cfg)) 0),
       l2_did_evict := False\<rparr>"

subsection \<open>The L2 cache\<close>

text \<open>
  \<^verbatim>\<open>l2cache_access\<close> (lines 306 to 374). \<^verbatim>\<open>index_to_evict\<close> is a \<^verbatim>\<open>size_t\<close>; the
  assignment to the \<^verbatim>\<open>uint32_t\<close> \<^verbatim>\<open>l2_evicted_addr\<close> keeps the low 32 bits of
  \<^verbatim>\<open>index_to_evict << blocksize_bitwidth\<close>, which is the 32-bit shift of the way number.
\<close>

definition l2cache_access :: "config \<Rightarrow> u32 \<Rightarrow> state \<Rightarrow> fault + (u32 \<times> state)" where
  "l2cache_access cfg addr s =
     (let s0 = s\<lparr>l2_did_evict := False\<rparr> in
      if l2cacheSets cfg = 0 then Inr (memspeed cfg, s0)
      else if blocksize cfg = 0 then Inl Undefined_Log2
      else
        let s1 = s0\<lparr>l2cacheRefs := l2cacheRefs s0 + 1\<rparr>;
            blocksize_bitwidth = log2_u32 (unat (blocksize cfg));
            index = unat (drop_bit blocksize_bitwidth addr AND (l2cacheSets cfg - 1));
            index_bitwidth = log2_u32 (unat (l2cacheSets cfg));
            tag = drop_bit index_bitwidth (drop_bit blocksize_bitwidth addr) OR 0x80000000;
            assoc = unat (l2cacheAssoc cfg);
            tags = l2_tag_storage s1 ! index;
            lru_storage = l2_lru_storage s1 ! index
        in case find_way assoc tags tag of
             Some i \<Rightarrow>
               Inr (l2cacheHitTime cfg,
                    s1\<lparr>l2_lru_storage :=
                         (l2_lru_storage s1)[index := (l2_bump assoc lru_storage)[i := 0]]\<rparr>)
           | None \<Rightarrow>
               if assoc = 0 then Inl Out_Of_Bounds
               else
                 let s2 = s1\<lparr>l2cacheMisses := l2cacheMisses s1 + 1\<rparr>;
                     (largest, index_to_evict, aged) = l2_scan assoc lru_storage;
                     s3 = (if tags ! index_to_evict AND 0x80000000 \<noteq> 0
                           then s2\<lparr>l2_did_evict := True,
                                   l2_evicted_addr :=
                                     push_bit index_bitwidth
                                       (push_bit blocksize_bitwidth (tags ! index_to_evict))
                                     OR push_bit blocksize_bitwidth (word_of_nat index_to_evict)\<rparr>
                           else s2);
                     s4 = s3\<lparr>l2_tag_storage :=
                               (l2_tag_storage s3)[index := tags[index_to_evict := tag]],
                             l2_lru_storage :=
                               (l2_lru_storage s3)[index := aged[index_to_evict := 0]]\<rparr>;
                     s5 = s4\<lparr>l2cachePenalties := l2cachePenalties s4 + ucast (memspeed cfg)\<rparr>
                 in Inr (l2cacheHitTime cfg + memspeed cfg, s5))"

subsection \<open>The L1 caches\<close>

text \<open>\<^verbatim>\<open>icache_access\<close> (lines 127 to 211).\<close>

definition icache_access :: "config \<Rightarrow> u32 \<Rightarrow> state \<Rightarrow> fault + (u32 \<times> state)" where
  "icache_access cfg addr s =
     (if icacheSets cfg = 0 then l2cache_access cfg addr s
      else if blocksize cfg = 0 then Inl Undefined_Log2
      else
        let s1 = s\<lparr>icacheRefs := icacheRefs s + 1\<rparr>;
            blocksize_bitwidth = log2_u32 (unat (blocksize cfg));
            index = unat (drop_bit blocksize_bitwidth addr AND (icacheSets cfg - 1));
            index_bitwidth = log2_u32 (unat (icacheSets cfg));
            tag = drop_bit index_bitwidth (drop_bit blocksize_bitwidth addr) OR 0x80000000;
            assoc = unat (icacheAssoc cfg);
            tags = l1i_tag_storage s1 ! index;
            lru_storage = l1i_lru_storage s1 ! index
        in case find_way assoc tags tag of
             Some i \<Rightarrow>
               Inr (icacheHitTime cfg,
                    s1\<lparr>l1i_lru_storage :=
                         (l1i_lru_storage s1)[index := (l1_bump assoc lru_storage)[i := 0]]\<rparr>)
           | None \<Rightarrow>
               if assoc = 0 then Inl Out_Of_Bounds
               else
                 let s2 = s1\<lparr>icacheMisses := icacheMisses s1 + 1\<rparr>;
                     (largest, index_to_evict, aged) = l1_scan assoc lru_storage;
                     s3 = s2\<lparr>l1i_tag_storage :=
                               (l1i_tag_storage s2)[index := tags[index_to_evict := tag]],
                             l1i_lru_storage :=
                               (l1i_lru_storage s2)[index := aged[index_to_evict := 0]]\<rparr>
                 in case l2cache_access cfg addr s3 of
                      Inl e \<Rightarrow> Inl e
                    | Inr (l2_time, s4) \<Rightarrow>
                        let s5 =
                              (if inclusive cfg \<noteq> 0 \<and> l2_did_evict s4 then
                                 let evicted_index =
                                       unat (drop_bit blocksize_bitwidth (l2_evicted_addr s4)
                                             AND (icacheSets cfg - 1));
                                     evicted_tag =
                                       drop_bit index_bitwidth
                                         (drop_bit blocksize_bitwidth (l2_evicted_addr s4))
                                       OR 0x80000000;
                                     (set_to_check, l) =
                                       l1_evict assoc evicted_tag
                                         (l1i_tag_storage s4 ! evicted_index,
                                          l1i_lru_storage s4 ! evicted_index)
                                 in s4\<lparr>l1i_tag_storage :=
                                         (l1i_tag_storage s4)[evicted_index := set_to_check],
                                       l1i_lru_storage :=
                                         (l1i_lru_storage s4)[evicted_index := l]\<rparr>
                               else s4);
                            s6 = s5\<lparr>icachePenalties := icachePenalties s5 + ucast l2_time\<rparr>
                        in Inr (icacheHitTime cfg + l2_time, s6))"

text \<open>\<^verbatim>\<open>dcache_access\<close> (lines 216 to 301), the same code on the data cache's variables.\<close>

definition dcache_access :: "config \<Rightarrow> u32 \<Rightarrow> state \<Rightarrow> fault + (u32 \<times> state)" where
  "dcache_access cfg addr s =
     (if dcacheSets cfg = 0 then l2cache_access cfg addr s
      else if blocksize cfg = 0 then Inl Undefined_Log2
      else
        let s1 = s\<lparr>dcacheRefs := dcacheRefs s + 1\<rparr>;
            blocksize_bitwidth = log2_u32 (unat (blocksize cfg));
            index = unat (drop_bit blocksize_bitwidth addr AND (dcacheSets cfg - 1));
            index_bitwidth = log2_u32 (unat (dcacheSets cfg));
            tag = drop_bit index_bitwidth (drop_bit blocksize_bitwidth addr) OR 0x80000000;
            assoc = unat (dcacheAssoc cfg);
            tags = l1d_tag_storage s1 ! index;
            lru_storage = l1d_lru_storage s1 ! index
        in case find_way assoc tags tag of
             Some i \<Rightarrow>
               Inr (dcacheHitTime cfg,
                    s1\<lparr>l1d_lru_storage :=
                         (l1d_lru_storage s1)[index := (l1_bump assoc lru_storage)[i := 0]]\<rparr>)
           | None \<Rightarrow>
               if assoc = 0 then Inl Out_Of_Bounds
               else
                 let s2 = s1\<lparr>dcacheMisses := dcacheMisses s1 + 1\<rparr>;
                     (largest, index_to_evict, aged) = l1_scan assoc lru_storage;
                     s3 = s2\<lparr>l1d_tag_storage :=
                               (l1d_tag_storage s2)[index := tags[index_to_evict := tag]],
                             l1d_lru_storage :=
                               (l1d_lru_storage s2)[index := aged[index_to_evict := 0]]\<rparr>
                 in case l2cache_access cfg addr s3 of
                      Inl e \<Rightarrow> Inl e
                    | Inr (l2_time, s4) \<Rightarrow>
                        let s5 =
                              (if inclusive cfg \<noteq> 0 \<and> l2_did_evict s4 then
                                 let evicted_index =
                                       unat (drop_bit blocksize_bitwidth (l2_evicted_addr s4)
                                             AND (dcacheSets cfg - 1));
                                     evicted_tag =
                                       drop_bit index_bitwidth
                                         (drop_bit blocksize_bitwidth (l2_evicted_addr s4))
                                       OR 0x80000000;
                                     (set_to_check, l) =
                                       l1_evict assoc evicted_tag
                                         (l1d_tag_storage s4 ! evicted_index,
                                          l1d_lru_storage s4 ! evicted_index)
                                 in s4\<lparr>l1d_tag_storage :=
                                         (l1d_tag_storage s4)[evicted_index := set_to_check],
                                       l1d_lru_storage :=
                                         (l1d_lru_storage s4)[evicted_index := l]\<rparr>
                               else s4);
                            s6 = s5\<lparr>dcachePenalties := dcachePenalties s5 + ucast l2_time\<rparr>
                        in Inr (dcacheHitTime cfg + l2_time, s6))"

subsection \<open>Names for what the access functions compute\<close>

text \<open>
  The set an address maps to and the tag stored for it, as each access function computes
  them from the block size and its own set count, and the result of its tag check.
\<close>

definition set_index :: "u32 \<Rightarrow> u32 \<Rightarrow> u32 \<Rightarrow> nat" where
  "set_index bsize sets addr = unat (drop_bit (log2_u32 (unat bsize)) addr AND (sets - 1))"

definition stored_tag :: "u32 \<Rightarrow> u32 \<Rightarrow> u32 \<Rightarrow> u32" where
  "stored_tag bsize sets addr =
     drop_bit (log2_u32 (unat sets)) (drop_bit (log2_u32 (unat bsize)) addr) OR 0x80000000"

definition icache_lookup :: "config \<Rightarrow> u32 \<Rightarrow> state \<Rightarrow> nat option" where
  "icache_lookup cfg addr s =
     find_way (unat (icacheAssoc cfg))
       (l1i_tag_storage s ! set_index (blocksize cfg) (icacheSets cfg) addr)
       (stored_tag (blocksize cfg) (icacheSets cfg) addr)"

definition dcache_lookup :: "config \<Rightarrow> u32 \<Rightarrow> state \<Rightarrow> nat option" where
  "dcache_lookup cfg addr s =
     find_way (unat (dcacheAssoc cfg))
       (l1d_tag_storage s ! set_index (blocksize cfg) (dcacheSets cfg) addr)
       (stored_tag (blocksize cfg) (dcacheSets cfg) addr)"

definition l2_lookup :: "config \<Rightarrow> u32 \<Rightarrow> state \<Rightarrow> nat option" where
  "l2_lookup cfg addr s =
     find_way (unat (l2cacheAssoc cfg))
       (l2_tag_storage s ! set_index (blocksize cfg) (l2cacheSets cfg) addr)
       (stored_tag (blocksize cfg) (l2cacheSets cfg) addr)"

text \<open>
  The three outcomes of an access, as state transformers: the hit (\<open>touch\<close>), the
  replacement of the oldest way on a miss (\<open>fill\<close>), and for an L1 the removal of the
  block the L2 evicted (\<open>inclusion\<close>). \<open>l2_evicted_address\<close> is the address that
  \<^verbatim>\<open>l2cache_access\<close> stores in \<^verbatim>\<open>l2_evicted_addr\<close> (lines 362 and 363), from the
  tag it found in the way it evicts and the number of that way.
\<close>

definition l2_touch :: "config \<Rightarrow> u32 \<Rightarrow> nat \<Rightarrow> state \<Rightarrow> state" where
  "l2_touch cfg addr i s =
     (let index = set_index (blocksize cfg) (l2cacheSets cfg) addr
      in s\<lparr>l2_did_evict := False,
           l2cacheRefs := l2cacheRefs s + 1,
           l2_lru_storage :=
             (l2_lru_storage s)
               [index := (l2_bump (unat (l2cacheAssoc cfg)) (l2_lru_storage s ! index))[i := 0]]\<rparr>)"

definition l2_evicted_address :: "config \<Rightarrow> u32 \<Rightarrow> nat \<Rightarrow> u32" where
  "l2_evicted_address cfg tag way =
     push_bit (log2_u32 (unat (l2cacheSets cfg))) (push_bit (log2_u32 (unat (blocksize cfg))) tag)
     OR push_bit (log2_u32 (unat (blocksize cfg))) (word_of_nat way)"

definition l2_fill :: "config \<Rightarrow> u32 \<Rightarrow> state \<Rightarrow> state" where
  "l2_fill cfg addr s =
     (let index = set_index (blocksize cfg) (l2cacheSets cfg) addr;
          tags = l2_tag_storage s ! index;
          (largest, index_to_evict, aged) =
             l2_scan (unat (l2cacheAssoc cfg)) (l2_lru_storage s ! index);
          evicts = (tags ! index_to_evict AND 0x80000000 \<noteq> 0)
      in s\<lparr>l2_did_evict := evicts,
           l2_evicted_addr :=
             (if evicts then l2_evicted_address cfg (tags ! index_to_evict) index_to_evict
              else l2_evicted_addr s),
           l2cacheRefs := l2cacheRefs s + 1,
           l2cacheMisses := l2cacheMisses s + 1,
           l2cachePenalties := l2cachePenalties s + ucast (memspeed cfg),
           l2_tag_storage :=
             (l2_tag_storage s)
               [index := tags[index_to_evict := stored_tag (blocksize cfg) (l2cacheSets cfg) addr]],
           l2_lru_storage := (l2_lru_storage s)[index := aged[index_to_evict := 0]]\<rparr>)"

definition icache_touch :: "config \<Rightarrow> u32 \<Rightarrow> nat \<Rightarrow> state \<Rightarrow> state" where
  "icache_touch cfg addr i s =
     (let index = set_index (blocksize cfg) (icacheSets cfg) addr
      in s\<lparr>icacheRefs := icacheRefs s + 1,
           l1i_lru_storage :=
             (l1i_lru_storage s)
               [index := (l1_bump (unat (icacheAssoc cfg)) (l1i_lru_storage s ! index))[i := 0]]\<rparr>)"

definition icache_fill :: "config \<Rightarrow> u32 \<Rightarrow> state \<Rightarrow> state" where
  "icache_fill cfg addr s =
     (let index = set_index (blocksize cfg) (icacheSets cfg) addr;
          (largest, index_to_evict, aged) =
             l1_scan (unat (icacheAssoc cfg)) (l1i_lru_storage s ! index)
      in s\<lparr>icacheRefs := icacheRefs s + 1,
           icacheMisses := icacheMisses s + 1,
           l1i_tag_storage :=
             (l1i_tag_storage s)
               [index := (l1i_tag_storage s ! index)
                  [index_to_evict := stored_tag (blocksize cfg) (icacheSets cfg) addr]],
           l1i_lru_storage := (l1i_lru_storage s)[index := aged[index_to_evict := 0]]\<rparr>)"

definition icache_inclusion :: "config \<Rightarrow> state \<Rightarrow> state" where
  "icache_inclusion cfg s =
     (if inclusive cfg \<noteq> 0 \<and> l2_did_evict s then
        let evicted_index = set_index (blocksize cfg) (icacheSets cfg) (l2_evicted_addr s);
            (set_to_check, l) =
               l1_evict (unat (icacheAssoc cfg))
                 (stored_tag (blocksize cfg) (icacheSets cfg) (l2_evicted_addr s))
                 (l1i_tag_storage s ! evicted_index, l1i_lru_storage s ! evicted_index)
        in s\<lparr>l1i_tag_storage := (l1i_tag_storage s)[evicted_index := set_to_check],
             l1i_lru_storage := (l1i_lru_storage s)[evicted_index := l]\<rparr>
      else s)"

definition dcache_touch :: "config \<Rightarrow> u32 \<Rightarrow> nat \<Rightarrow> state \<Rightarrow> state" where
  "dcache_touch cfg addr i s =
     (let index = set_index (blocksize cfg) (dcacheSets cfg) addr
      in s\<lparr>dcacheRefs := dcacheRefs s + 1,
           l1d_lru_storage :=
             (l1d_lru_storage s)
               [index := (l1_bump (unat (dcacheAssoc cfg)) (l1d_lru_storage s ! index))[i := 0]]\<rparr>)"

definition dcache_fill :: "config \<Rightarrow> u32 \<Rightarrow> state \<Rightarrow> state" where
  "dcache_fill cfg addr s =
     (let index = set_index (blocksize cfg) (dcacheSets cfg) addr;
          (largest, index_to_evict, aged) =
             l1_scan (unat (dcacheAssoc cfg)) (l1d_lru_storage s ! index)
      in s\<lparr>dcacheRefs := dcacheRefs s + 1,
           dcacheMisses := dcacheMisses s + 1,
           l1d_tag_storage :=
             (l1d_tag_storage s)
               [index := (l1d_tag_storage s ! index)
                  [index_to_evict := stored_tag (blocksize cfg) (dcacheSets cfg) addr]],
           l1d_lru_storage := (l1d_lru_storage s)[index := aged[index_to_evict := 0]]\<rparr>)"

definition dcache_inclusion :: "config \<Rightarrow> state \<Rightarrow> state" where
  "dcache_inclusion cfg s =
     (if inclusive cfg \<noteq> 0 \<and> l2_did_evict s then
        let evicted_index = set_index (blocksize cfg) (dcacheSets cfg) (l2_evicted_addr s);
            (set_to_check, l) =
               l1_evict (unat (dcacheAssoc cfg))
                 (stored_tag (blocksize cfg) (dcacheSets cfg) (l2_evicted_addr s))
                 (l1d_tag_storage s ! evicted_index, l1d_lru_storage s ! evicted_index)
        in s\<lparr>l1d_tag_storage := (l1d_tag_storage s)[evicted_index := set_to_check],
             l1d_lru_storage := (l1d_lru_storage s)[evicted_index := l]\<rparr>
      else s)"

text \<open>
  What one pass of ageing does to one counter in an L1, and the oldest way as the scan
  finds it on the counters it started from: the first way that holds the largest counter
  above 0, way 0 when there is none.
\<close>

definition age1 :: "u32 \<Rightarrow> u32" where
  "age1 x = (if x \<noteq> UINT32_MAX then x + 1 else x)"

definition scan_max :: "nat \<Rightarrow> u32 list \<Rightarrow> u32 \<times> nat" where
  "scan_max n l =
     fold (\<lambda>i (largest, k). if l ! i > largest then (l ! i, i) else (largest, k))
       [0..<n] (0, 0)"

definition victim :: "nat \<Rightarrow> u32 list \<Rightarrow> nat" where
  "victim n l = snd (scan_max n l)"

subsection \<open>The state at program start and the configurations of the examples\<close>

text \<open>
  The globals of a C program start zeroed: counters 0, the flag false, the array pointers
  null (no rows). \<^verbatim>\<open>init_cache\<close> runs on this state, or on whatever an earlier run left.
\<close>

definition program_start :: state where
  "program_start =
     \<lparr>icacheRefs = 0, icacheMisses = 0, icachePenalties = 0,
      dcacheRefs = 0, dcacheMisses = 0, dcachePenalties = 0,
      l2cacheRefs = 0, l2cacheMisses = 0, l2cachePenalties = 0,
      l2_did_evict = False, l2_evicted_addr = 0,
      l1i_tag_storage = [], l1i_lru_storage = [],
      l1d_tag_storage = [], l1d_lru_storage = [],
      l2_tag_storage = [], l2_lru_storage = []\<rparr>"

text \<open>
  The configuration of the specification's scenario: no instruction cache, a data cache
  and an inclusive L2 of two sets of one way each, blocks of four bytes.
\<close>

definition scenario_cfg :: config where
  "scenario_cfg =
     \<lparr>icacheSets = 0, icacheAssoc = 0, icacheHitTime = 0,
      dcacheSets = 2, dcacheAssoc = 1, dcacheHitTime = 1,
      l2cacheSets = 2, l2cacheAssoc = 1, l2cacheHitTime = 5,
      inclusive = 1, blocksize = 4, memspeed = 50\<rparr>"

text \<open>
  A data cache of 2 sets of 2 ways over an inclusive L2 of 4 sets of 2 ways, blocks of
  four bytes: the L1 associativity does not exceed the L2's, and the L2 is the larger.
\<close>

definition inclusion_cfg :: config where
  "inclusion_cfg =
     \<lparr>icacheSets = 0, icacheAssoc = 0, icacheHitTime = 0,
      dcacheSets = 2, dcacheAssoc = 2, dcacheHitTime = 1,
      l2cacheSets = 4, l2cacheAssoc = 2, l2cacheHitTime = 5,
      inclusive = 1, blocksize = 4, memspeed = 50\<rparr>"

text \<open>
  What a level adds to the latency of an access that misses everywhere (nothing when it
  is bypassed), and when a level computes without a fault.
\<close>

definition level_time :: "u32 \<Rightarrow> u32 \<Rightarrow> u32" where
  "level_time sets hit_time = (if sets = 0 then 0 else hit_time)"

definition level_defined :: "config \<Rightarrow> u32 \<Rightarrow> u32 \<Rightarrow> bool" where
  "level_defined cfg sets assoc = (sets = 0 \<or> (blocksize cfg \<noteq> 0 \<and> assoc \<noteq> 0))"

text \<open>
  Three caches of one set of two ways, and a state of them in which way 0 of each set
  holds the counter \<^verbatim>\<open>UINT32_MAX\<close> and way 1 holds the block of address 0.
\<close>

definition sentinel_cfg :: config where
  "sentinel_cfg =
     \<lparr>icacheSets = 1, icacheAssoc = 2, icacheHitTime = 1,
      dcacheSets = 1, dcacheAssoc = 2, dcacheHitTime = 1,
      l2cacheSets = 1, l2cacheAssoc = 2, l2cacheHitTime = 5,
      inclusive = 1, blocksize = 4, memspeed = 50\<rparr>"

definition sentinel_state :: state where
  "sentinel_state =
     (init_cache sentinel_cfg program_start)
       \<lparr>l1i_tag_storage := [[0, 0x80000000]], l1i_lru_storage := [[0xFFFFFFFF, 0]],
        l1d_tag_storage := [[0, 0x80000000]], l1d_lru_storage := [[0xFFFFFFFF, 0]],
        l2_tag_storage := [[0x80000001, 0x80000000]], l2_lru_storage := [[0xFFFFFFFF, 0]]\<rparr>"

text \<open>A hierarchy with every level bypassed.\<close>

definition memory_cfg :: config where
  "memory_cfg =
     \<lparr>icacheSets = 0, icacheAssoc = 0, icacheHitTime = 2,
      dcacheSets = 0, dcacheAssoc = 0, dcacheHitTime = 2,
      l2cacheSets = 0, l2cacheAssoc = 0, l2cacheHitTime = 10,
      inclusive = 0, blocksize = 4, memspeed = 50\<rparr>"

text \<open>
  Modelled from the spec: the external driver, which is not part of \<^verbatim>\<open>cache.c\<close>. It calls
  the instruction-access or the data-access entry point once per reference, in trace
  order, each call running to completion before the next, and reads the statistics at the
  end. \<open>run\<close> is that sequence of calls with the latencies collected; a fault ends it.
\<close>

datatype access = Instruction u32 | Data u32

fun step :: "config \<Rightarrow> access \<Rightarrow> state \<Rightarrow> fault + (u32 \<times> state)" where
  "step cfg (Instruction addr) s = icache_access cfg addr s"
| "step cfg (Data addr) s = dcache_access cfg addr s"

fun run :: "config \<Rightarrow> access list \<Rightarrow> state \<Rightarrow> fault + (u32 list \<times> state)" where
  "run cfg [] s = Inr ([], s)"
| "run cfg (x # xs) s =
     (case step cfg x s of
        Inl e \<Rightarrow> Inl e
      | Inr (t, s') \<Rightarrow>
          (case run cfg xs s' of
             Inl e \<Rightarrow> Inl e
           | Inr (ts, s'') \<Rightarrow> Inr (t # ts, s'')))"

definition statistics :: "state \<Rightarrow> (u64 \<times> u64 \<times> u64) \<times> (u64 \<times> u64 \<times> u64) \<times> (u64 \<times> u64 \<times> u64)" where
  "statistics s =
     ((icacheRefs s, icacheMisses s, icachePenalties s),
      (dcacheRefs s, dcacheMisses s, dcachePenalties s),
      (l2cacheRefs s, l2cacheMisses s, l2cachePenalties s))"

definition observed ::
  "fault + (u32 list \<times> state) \<Rightarrow>
   fault + (u32 list \<times> (u64 \<times> u64 \<times> u64) \<times> (u64 \<times> u64 \<times> u64) \<times> (u64 \<times> u64 \<times> u64))" where
  "observed r = (case r of Inl e \<Rightarrow> Inl e | Inr (ts, s) \<Rightarrow> Inr (ts, statistics s))"

text \<open>
  Two states agree when they differ at most in \<^verbatim>\<open>l2_evicted_addr\<close> and that variable is
  stale in them (\<^verbatim>\<open>l2_did_evict\<close> is false).
\<close>

definition agree :: "state \<Rightarrow> state \<Rightarrow> bool" where
  "agree s t = (t = s \<or> (\<not> l2_did_evict s \<and> t = s\<lparr>l2_evicted_addr := l2_evicted_addr t\<rparr>))"

text \<open>
  An access from two agreeing states gives the same latency (or the same fault) and
  agreeing states.
\<close>

definition agree_result :: "fault + (u32 \<times> state) \<Rightarrow> fault + (u32 \<times> state) \<Rightarrow> bool" where
  "agree_result r r' =
     (case r of
        Inl e \<Rightarrow> r' = Inl e
      | Inr (t, s) \<Rightarrow> (case r' of Inl e \<Rightarrow> False | Inr (t', s') \<Rightarrow> t' = t \<and> agree s s'))"

text \<open>
  A slot is valid when the top bit of its tag is set. A level is well formed when its
  arrays have the shape \<^verbatim>\<open>init_cache\<close> allocated (one row per set, one slot per way) and
  the valid tags of each set are pairwise distinct.
\<close>

definition valid_tag :: "u32 \<Rightarrow> bool" where
  "valid_tag t = (t AND 0x80000000 \<noteq> 0)"

definition set_ok :: "nat \<Rightarrow> u32 list \<Rightarrow> bool" where
  "set_ok assoc tags = (length tags = assoc \<and> distinct (filter valid_tag tags))"

definition level_ok :: "u32 \<Rightarrow> u32 \<Rightarrow> u32 list list \<Rightarrow> u32 list list \<Rightarrow> bool" where
  "level_ok sets assoc tag_storage lru_storage =
     (length tag_storage = unat sets \<and> length lru_storage = unat sets \<and>
      list_all (set_ok (unat assoc)) tag_storage \<and>
      list_all (\<lambda>l. length l = unat assoc) lru_storage)"

definition hierarchy_ok :: "config \<Rightarrow> state \<Rightarrow> bool" where
  "hierarchy_ok cfg s =
     (level_ok (icacheSets cfg) (icacheAssoc cfg) (l1i_tag_storage s) (l1i_lru_storage s) \<and>
      level_ok (dcacheSets cfg) (dcacheAssoc cfg) (l1d_tag_storage s) (l1d_lru_storage s) \<and>
      level_ok (l2cacheSets cfg) (l2cacheAssoc cfg) (l2_tag_storage s) (l2_lru_storage s))"

text \<open>The states a hierarchy can be in: initialised, then any sequence of accesses.\<close>

inductive reachable :: "config \<Rightarrow> state \<Rightarrow> bool" for cfg :: config where
  init: "reachable cfg (init_cache cfg s0)"
| instruction: "reachable cfg s \<Longrightarrow> icache_access cfg addr s = Inr (t, s') \<Longrightarrow> reachable cfg s'"
| data: "reachable cfg s \<Longrightarrow> dcache_access cfg addr s = Inr (t, s') \<Longrightarrow> reachable cfg s'"
| l2: "reachable cfg s \<Longrightarrow> l2cache_access cfg addr s = Inr (t, s') \<Longrightarrow> reachable cfg s'"

text \<open>
  One access seen from the set it maps to: the rows (tags, counters) of the set before and
  after, for a level that ages its counters with \<open>age\<close>. A hit resets the counter of
  the way it found; a miss replaces the oldest way. \<open>filled_tags\<close> and \<open>filled_lru\<close>
  are the rows of a set that started empty after \<open>j\<close> misses on the tags \<open>xs\<close>.
\<close>

definition set_access ::
  "(u32 \<Rightarrow> u32) \<Rightarrow> nat \<Rightarrow> u32 \<Rightarrow> u32 list \<times> u32 list \<Rightarrow> u32 list \<times> u32 list" where
  "set_access age n x p =
     (case find_way n (fst p) x of
        Some i \<Rightarrow> (fst p, (map age (snd p))[i := 0])
      | None \<Rightarrow> ((fst p)[victim n (snd p) := x], (map age (snd p))[victim n (snd p) := 0]))"

definition filled_tags :: "nat \<Rightarrow> u32 list \<Rightarrow> nat \<Rightarrow> u32 list" where
  "filled_tags n xs j = map (\<lambda>i. if i < j then xs ! i else 0) [0..<n]"

definition filled_lru :: "nat \<Rightarrow> nat \<Rightarrow> u32 list" where
  "filled_lru n j = map (\<lambda>i. if i < j then word_of_nat (j - 1 - i) else word_of_nat j) [0..<n]"

definition ages :: "(u32 \<Rightarrow> u32) \<Rightarrow> nat \<Rightarrow> bool" where
  "ages age n = (\<forall>i<n. age (word_of_nat i) = word_of_nat (Suc i))"

text \<open>
  Modelled from the spec: the external driver's calls to one entry point \<open>f\<close> (instruction
  access, data access or L2 access), one per address, in order, each run to completion
  before the next. The latencies are collected; a fault ends the sequence.
\<close>

fun accesses ::
  "(u32 \<Rightarrow> state \<Rightarrow> fault + (u32 \<times> state)) \<Rightarrow> u32 list \<Rightarrow> state \<Rightarrow> fault + (u32 list \<times> state)" where
  "accesses f [] s = Inr ([], s)"
| "accesses f (a # as) s =
     (case f a s of
        Inl e \<Rightarrow> Inl e
      | Inr (t, s') \<Rightarrow>
          (case accesses f as s' of
             Inl e \<Rightarrow> Inl e
           | Inr (ts, s'') \<Rightarrow> Inr (t # ts, s'')))"

text \<open>The rows of set \<open>k\<close> of each level.\<close>

definition l2_view :: "nat \<Rightarrow> state \<Rightarrow> u32 list \<times> u32 list" where
  "l2_view k s = (l2_tag_storage s ! k, l2_lru_storage s ! k)"

definition icache_view :: "nat \<Rightarrow> state \<Rightarrow> u32 list \<times> u32 list" where
  "icache_view k s = (l1i_tag_storage s ! k, l1i_lru_storage s ! k)"

definition dcache_view :: "nat \<Rightarrow> state \<Rightarrow> u32 list \<times> u32 list" where
  "dcache_view k s = (l1d_tag_storage s ! k, l1d_lru_storage s ! k)"

text \<open>
  The setting of the replacement property for one level: the level is enabled, \<open>addrs\<close>
  are one more address than the level has ways, all of them map to set \<open>k\<close>, their stored
  tags are pairwise distinct, and the rows of set \<open>k\<close> are as \<^verbatim>\<open>init_cache\<close> left them.
\<close>

definition lru_setting ::
  "u32 \<Rightarrow> u32 \<Rightarrow> u32 \<Rightarrow> nat \<Rightarrow> u32 list \<times> u32 list \<Rightarrow> u32 list \<Rightarrow> bool" where
  "lru_setting bsize sets assoc k rows addrs =
     (sets \<noteq> 0 \<and> bsize \<noteq> 0 \<and> assoc \<noteq> 0 \<and>
      length addrs = unat assoc + 1 \<and>
      list_all (\<lambda>a. set_index bsize sets a = k) addrs \<and>
      distinct (map (stored_tag bsize sets) addrs) \<and>
      rows = (replicate (unat assoc) 0, replicate (unat assoc) 0))"

text \<open>
  An L2 of one set of one way with blocks of one byte, where the tag is the whole address;
  and three caches of two sets of two ways without inclusion.
\<close>

definition alias_cfg :: config where
  "alias_cfg =
     \<lparr>icacheSets = 0, icacheAssoc = 0, icacheHitTime = 0,
      dcacheSets = 0, dcacheAssoc = 0, dcacheHitTime = 0,
      l2cacheSets = 1, l2cacheAssoc = 1, l2cacheHitTime = 5,
      inclusive = 0, blocksize = 1, memspeed = 50\<rparr>"

definition lru_cfg :: config where
  "lru_cfg =
     \<lparr>icacheSets = 2, icacheAssoc = 2, icacheHitTime = 1,
      dcacheSets = 2, dcacheAssoc = 2, dcacheHitTime = 1,
      l2cacheSets = 2, l2cacheAssoc = 2, l2cacheHitTime = 5,
      inclusive = 0, blocksize = 4, memspeed = 50\<rparr>"

section \<open>Properties\<close>

subsection \<open>The loops\<close>

lemma l1_bump_0: "l1_bump 0 l = l"
  by (simp add: l1_bump_def)

lemma l1_bump_Suc:
  "l1_bump (Suc n) l = (l1_bump n l)[n := age1 (l1_bump n l ! n)]"
proof -
  have "l1_bump (Suc n) l =
      (if l1_bump n l ! n \<noteq> UINT32_MAX then (l1_bump n l)[n := l1_bump n l ! n + 1]
       else l1_bump n l)"
    by (simp add: l1_bump_def)
  also have "\<dots> = (l1_bump n l)[n := age1 (l1_bump n l ! n)]"
  proof (cases "l1_bump n l ! n = UINT32_MAX")
    case True
    have "(l1_bump n l)[n := l1_bump n l ! n] = l1_bump n l"
      by (rule list_update_id)
    with True show ?thesis by (simp add: age1_def)
  next
    case False
    then show ?thesis by (simp add: age1_def)
  qed
  finally show ?thesis .
qed

lemma length_l1_bump [simp]: "length (l1_bump n l) = length l"
  by (induction n) (simp_all add: l1_bump_0 l1_bump_Suc)

lemma nth_l1_bump:
  "j < length l \<Longrightarrow> l1_bump n l ! j = (if j < n then age1 (l ! j) else l ! j)"
  by (induction n) (auto simp: l1_bump_0 l1_bump_Suc nth_list_update less_Suc_eq)

lemma l2_bump_0: "l2_bump 0 l = l"
  by (simp add: l2_bump_def)

lemma l2_bump_Suc: "l2_bump (Suc n) l = (l2_bump n l)[n := l2_bump n l ! n + 1]"
  by (simp add: l2_bump_def)

lemma length_l2_bump [simp]: "length (l2_bump n l) = length l"
  by (induction n) (simp_all add: l2_bump_0 l2_bump_Suc)

lemma nth_l2_bump:
  "j < length l \<Longrightarrow> l2_bump n l ! j = (if j < n then l ! j + 1 else l ! j)"
  by (induction n) (auto simp: l2_bump_0 l2_bump_Suc nth_list_update less_Suc_eq)

text \<open>
  The scan compares the counter of way \<open>i\<close> before it ages it, and ageing touches no
  later way: the way it picks is the one \<open>scan_max\<close> picks on the counters as they
  were, and the counters it leaves are the aged ones.
\<close>

lemma l1_scan_eq:
  "n \<le> length l \<Longrightarrow> l1_scan n l = (fst (scan_max n l), victim n l, l1_bump n l)"
proof -
  have "n \<le> length l \<Longrightarrow>
    fold (\<lambda>i (largest, index_to_evict, l).
             (if l ! i > largest then l ! i else largest,
              if l ! i > largest then i else index_to_evict,
              if l ! i \<noteq> UINT32_MAX then l[i := l ! i + 1] else l))
          [0..<n] (0, 0, l)
    = (fst (scan_max n l), snd (scan_max n l), l1_bump n l)"
  proof (induction n)
    case 0
    then show ?case by (simp add: scan_max_def l1_bump_def)
  next
    case (Suc n)
    then have n: "n < length l" by simp
    have keep: "l1_bump n l ! n = l ! n"
      using n by (simp add: nth_l1_bump)
    have step: "l1_bump (Suc n) l =
        (if l1_bump n l ! n \<noteq> UINT32_MAX then (l1_bump n l)[n := l1_bump n l ! n + 1]
         else l1_bump n l)"
      by (simp add: l1_bump_def)
    show ?case
      using Suc n by (simp add: keep step scan_max_def split: prod.splits)
  qed
  then show "n \<le> length l \<Longrightarrow> ?thesis" by (simp add: l1_scan_def victim_def)
qed

lemma l2_scan_eq:
  "n \<le> length l \<Longrightarrow> l2_scan n l = (fst (scan_max n l), victim n l, l2_bump n l)"
proof -
  have "n \<le> length l \<Longrightarrow>
    fold (\<lambda>i (largest, index_to_evict, l).
             (if l ! i > largest then l ! i else largest,
              if l ! i > largest then i else index_to_evict,
              l[i := l ! i + 1]))
          [0..<n] (0, 0, l)
    = (fst (scan_max n l), snd (scan_max n l), l2_bump n l)"
  proof (induction n)
    case 0
    then show ?case by (simp add: scan_max_def l2_bump_def)
  next
    case (Suc n)
    then have n: "n < length l" by simp
    have keep: "l2_bump n l ! n = l ! n"
      using n by (simp add: nth_l2_bump)
    have step: "l2_bump (Suc n) l = (l2_bump n l)[n := l2_bump n l ! n + 1]"
      by (simp add: l2_bump_def)
    show ?case
      using Suc n by (simp add: keep step scan_max_def split: prod.splits)
  qed
  then show "n \<le> length l \<Longrightarrow> ?thesis" by (simp add: l2_scan_def victim_def)
qed

lemma victim_bound: "victim n l < n \<or> victim n l = 0"
  unfolding victim_def scan_max_def
  by (induction n) (auto split: prod.splits)

lemma victim_less: "0 < n \<Longrightarrow> victim n l < n"
  using victim_bound [of n l] by auto

lemma find_way_Some:
  "find_way n tags tag = Some i \<Longrightarrow> i < n \<and> tags ! i = tag"
  unfolding find_way_def by (auto simp: find_Some_iff)

lemma find_way_None:
  "find_way n tags tag = None \<longleftrightarrow> (\<forall>i<n. tags ! i \<noteq> tag)"
  unfolding find_way_def by (auto simp: find_None_iff)

lemma find_way_None_set:
  "length tags = n \<Longrightarrow> find_way n tags tag = None \<longleftrightarrow> tag \<notin> set tags"
  by (auto simp: find_way_None in_set_conv_nth)

subsection \<open>The access functions by cases\<close>

text \<open>
  Each access function is its bypass, its fault checks, and then a hit that touches one
  set or a miss that fills it; an L1 miss calls the L2 on the filled state and applies the
  inclusion step to what the L2 returns.
\<close>

lemma l2cache_access_eq:
  "l2cache_access cfg addr s =
     (if l2cacheSets cfg = 0 then Inr (memspeed cfg, s\<lparr>l2_did_evict := False\<rparr>)
      else if blocksize cfg = 0 then Inl Undefined_Log2
      else case l2_lookup cfg addr s of
             Some i \<Rightarrow> Inr (l2cacheHitTime cfg, l2_touch cfg addr i s)
           | None \<Rightarrow>
               if l2cacheAssoc cfg = 0 then Inl Out_Of_Bounds
               else Inr (l2cacheHitTime cfg + memspeed cfg, l2_fill cfg addr s))"
  by (simp add: l2cache_access_def l2_lookup_def l2_touch_def l2_fill_def set_index_def
      stored_tag_def l2_evicted_address_def Let_def unat_eq_0 split: option.splits prod.splits)

lemma icache_access_eq:
  "icache_access cfg addr s =
     (if icacheSets cfg = 0 then l2cache_access cfg addr s
      else if blocksize cfg = 0 then Inl Undefined_Log2
      else case icache_lookup cfg addr s of
             Some i \<Rightarrow> Inr (icacheHitTime cfg, icache_touch cfg addr i s)
           | None \<Rightarrow>
               if icacheAssoc cfg = 0 then Inl Out_Of_Bounds
               else case l2cache_access cfg addr (icache_fill cfg addr s) of
                      Inl e \<Rightarrow> Inl e
                    | Inr (l2_time, s4) \<Rightarrow>
                        Inr (icacheHitTime cfg + l2_time,
                             (icache_inclusion cfg s4)
                               \<lparr>icachePenalties := icachePenalties s4 + ucast l2_time\<rparr>))"
  by (simp add: icache_access_def icache_lookup_def icache_touch_def icache_fill_def
      icache_inclusion_def set_index_def stored_tag_def Let_def unat_eq_0
      split: option.splits prod.splits sum.splits)

lemma dcache_access_eq:
  "dcache_access cfg addr s =
     (if dcacheSets cfg = 0 then l2cache_access cfg addr s
      else if blocksize cfg = 0 then Inl Undefined_Log2
      else case dcache_lookup cfg addr s of
             Some i \<Rightarrow> Inr (dcacheHitTime cfg, dcache_touch cfg addr i s)
           | None \<Rightarrow>
               if dcacheAssoc cfg = 0 then Inl Out_Of_Bounds
               else case l2cache_access cfg addr (dcache_fill cfg addr s) of
                      Inl e \<Rightarrow> Inl e
                    | Inr (l2_time, s4) \<Rightarrow>
                        Inr (dcacheHitTime cfg + l2_time,
                             (dcache_inclusion cfg s4)
                               \<lparr>dcachePenalties := dcachePenalties s4 + ucast l2_time\<rparr>))"
  by (simp add: dcache_access_def dcache_lookup_def dcache_touch_def dcache_fill_def
      dcache_inclusion_def set_index_def stored_tag_def Let_def unat_eq_0
      split: option.splits prod.splits sum.splits)

subsection \<open>Initialisation keeps only the old evicted address\<close>

lemma init_cache_prior:
  "init_cache cfg s = init_cache cfg (program_start\<lparr>l2_evicted_addr := l2_evicted_addr s\<rparr>)"
  by (simp add: init_cache_def program_start_def)

subsection \<open>The scenario 0, 16, 0\<close>

lemma scenario_from_start:
  "case dcache_access scenario_cfg 0
          (init_cache scenario_cfg (program_start\<lparr>l2_evicted_addr := a\<rparr>)) of
     Inl e \<Rightarrow> False
   | Inr (t1, s1) \<Rightarrow>
       (case dcache_access scenario_cfg 16 s1 of
          Inl e \<Rightarrow> False
        | Inr (t2, s2) \<Rightarrow>
            (case dcache_access scenario_cfg 0 s2 of
               Inl e \<Rightarrow> False
             | Inr (t3, s3) \<Rightarrow>
                 t1 = 56 \<and> t2 = 56 \<and> t3 = 56 \<and>
                 dcacheMisses s1 = 1 \<and> l2cacheMisses s1 = 1 \<and>
                 l1d_tag_storage s1 = [[0x80000000], [0]] \<and>
                 l2_tag_storage s1 = [[0x80000000], [0]] \<and>
                 dcacheMisses s2 = 2 \<and> l2cacheMisses s2 = 2 \<and>
                 l2_did_evict s2 \<and> l2_evicted_addr s2 = 0 \<and>
                 l1d_tag_storage s2 = [[0x80000002], [0]] \<and>
                 l2_tag_storage s2 = [[0x80000002], [0]] \<and>
                 dcacheMisses s3 = 3 \<and> l2cacheMisses s3 = 3 \<and> dcacheRefs s3 = 3))"
  by code_simp

text \<open>
  C4. With blocksize 4, no instruction cache, a data cache of 2 sets of 1 way with hit
  time 1, an inclusive L2 of 2 sets of 1 way with hit time 5 and memory latency 50, the
  data accesses 0, 16, 0 on a freshly initialised hierarchy each return latency 56.
  The first misses in the data cache and in the L2; the second maps to set 0 of both
  levels and replaces the block of address 0 in both (the L2 reports the eviction of
  address 0); the third misses in both again.
\<close>

theorem scenario_0_16_0:
  "case dcache_access scenario_cfg 0 (init_cache scenario_cfg s) of
     Inl e \<Rightarrow> False
   | Inr (t1, s1) \<Rightarrow>
       (case dcache_access scenario_cfg 16 s1 of
          Inl e \<Rightarrow> False
        | Inr (t2, s2) \<Rightarrow>
            (case dcache_access scenario_cfg 0 s2 of
               Inl e \<Rightarrow> False
             | Inr (t3, s3) \<Rightarrow>
                 t1 = 56 \<and> t2 = 56 \<and> t3 = 56 \<and>
                 dcacheMisses s1 = 1 \<and> l2cacheMisses s1 = 1 \<and>
                 l1d_tag_storage s1 = [[0x80000000], [0]] \<and>
                 l2_tag_storage s1 = [[0x80000000], [0]] \<and>
                 dcacheMisses s2 = 2 \<and> l2cacheMisses s2 = 2 \<and>
                 l2_did_evict s2 \<and> l2_evicted_addr s2 = 0 \<and>
                 l1d_tag_storage s2 = [[0x80000002], [0]] \<and>
                 l2_tag_storage s2 = [[0x80000002], [0]] \<and>
                 dcacheMisses s3 = 3 \<and> l2cacheMisses s3 = 3 \<and> dcacheRefs s3 = 3))"
  by (subst init_cache_prior) (rule scenario_from_start)

subsection \<open>The address the L2 reports for the block it evicts\<close>

lemma evicted_addr_from_start:
  "set_index (blocksize scenario_cfg) (l2cacheSets scenario_cfg) 4 = 1 \<and>
   stored_tag (blocksize scenario_cfg) (l2cacheSets scenario_cfg) 4 = 0x80000000 \<and>
   (case l2cache_access scenario_cfg 4
           (init_cache scenario_cfg (program_start\<lparr>l2_evicted_addr := a\<rparr>)) of
      Inl e \<Rightarrow> False
    | Inr (t1, s1) \<Rightarrow>
        l2_tag_storage s1 = [[0], [0x80000000]] \<and>
        (case l2cache_access scenario_cfg 12 s1 of
           Inl e \<Rightarrow> False
         | Inr (t2, s2) \<Rightarrow>
             l2_tag_storage s2 = [[0], [0x80000001]] \<and>
             l2_did_evict s2 \<and> l2_evicted_addr s2 = 0 \<and> l2_evicted_addr s2 \<noteq> 4))"
  by code_simp

text \<open>
  C1. Decoding an address to (set index, tag) and reconstructing an address from them, as
  the L2 miss path does for the evicted block, should give back the block's address
  \<open>(tag * setCount + setIndex) * blockSize\<close>. The code shifts the number of the evicted
  way where the set index belongs (line 363). With 2 sets of 1 way and blocks of 4 bytes,
  address 4 decodes to set 1 and tag 0 (stored as \<open>0x80000000\<close>); when address 12
  evicts it from way 0 of set 1, \<^verbatim>\<open>l2_evicted_addr\<close> is 0, not 4.
\<close>

theorem l2_evicted_addr_is_not_the_block:
  "set_index (blocksize scenario_cfg) (l2cacheSets scenario_cfg) 4 = 1 \<and>
   stored_tag (blocksize scenario_cfg) (l2cacheSets scenario_cfg) 4 = 0x80000000 \<and>
   (case l2cache_access scenario_cfg 4 (init_cache scenario_cfg s) of
      Inl e \<Rightarrow> False
    | Inr (t1, s1) \<Rightarrow>
        l2_tag_storage s1 = [[0], [0x80000000]] \<and>
        (case l2cache_access scenario_cfg 12 s1 of
           Inl e \<Rightarrow> False
         | Inr (t2, s2) \<Rightarrow>
             l2_tag_storage s2 = [[0], [0x80000001]] \<and>
             l2_did_evict s2 \<and> l2_evicted_addr s2 = 0 \<and> l2_evicted_addr s2 \<noteq> 4))"
  by (subst init_cache_prior) (rule evicted_addr_from_start)

subsection \<open>Inclusion after an L2 eviction\<close>

lemma inclusion_from_start:
  "case dcache_access inclusion_cfg 4
          (init_cache inclusion_cfg (program_start\<lparr>l2_evicted_addr := a\<rparr>)) of
     Inl e \<Rightarrow> False
   | Inr (t1, s1) \<Rightarrow>
       (case dcache_access inclusion_cfg 20 s1 of
          Inl e \<Rightarrow> False
        | Inr (t2, s2) \<Rightarrow>
            (case dcache_access inclusion_cfg 4 s2 of
               Inl e \<Rightarrow> False
             | Inr (t3, s3) \<Rightarrow>
                 t3 = dcacheHitTime inclusion_cfg \<and>
                 l2_tag_storage s3 ! 1 = [0x80000000, 0x80000001] \<and>
                 l1d_tag_storage s3 ! 1 = [0x80000000, 0x80000002] \<and>
                 (case dcache_access inclusion_cfg 36 s3 of
                    Inl e \<Rightarrow> False
                  | Inr (t4, s4) \<Rightarrow>
                      l2_did_evict s4 \<and> l2_evicted_addr s4 = 0 \<and>
                      l2_tag_storage s4 ! 1 = [0x80000002, 0x80000001] \<and>
                      l2_lookup inclusion_cfg 4 s4 = None \<and>
                      l1d_tag_storage s4 ! 1 = [0x80000000, 0x80000004] \<and>
                      dcache_lookup inclusion_cfg 4 s4 = Some 0 \<and>
                      (case dcache_access inclusion_cfg 4 s4 of
                         Inl e \<Rightarrow> False
                       | Inr (t5, s5) \<Rightarrow> t5 = dcacheHitTime inclusion_cfg))))"
  by code_simp

text \<open>
  C2. With an inclusive L2 and L1 associativity not above the L2's, a block the L2 evicts
  should be absent from the requesting L1 right after the access. With a data cache of 2
  sets of 2 ways over an inclusive L2 of 4 sets of 2 ways and blocks of 4 bytes
  (\<open>inclusion_cfg\<close>), the data accesses 4, 20, 4, 36 end with the L2 evicting the block of address 4
  from way 0 of its set 1 (it no longer finds address 4), reporting address 0 for it, and
  the data cache still holding that block in way 0 of its set 1: the next access to
  address 4 is a data-cache hit.
\<close>

theorem evicted_block_stays_in_l1:
  "case dcache_access inclusion_cfg 4 (init_cache inclusion_cfg s) of
     Inl e \<Rightarrow> False
   | Inr (t1, s1) \<Rightarrow>
       (case dcache_access inclusion_cfg 20 s1 of
          Inl e \<Rightarrow> False
        | Inr (t2, s2) \<Rightarrow>
            (case dcache_access inclusion_cfg 4 s2 of
               Inl e \<Rightarrow> False
             | Inr (t3, s3) \<Rightarrow>
                 t3 = dcacheHitTime inclusion_cfg \<and>
                 l2_tag_storage s3 ! 1 = [0x80000000, 0x80000001] \<and>
                 l1d_tag_storage s3 ! 1 = [0x80000000, 0x80000002] \<and>
                 (case dcache_access inclusion_cfg 36 s3 of
                    Inl e \<Rightarrow> False
                  | Inr (t4, s4) \<Rightarrow>
                      l2_did_evict s4 \<and> l2_evicted_addr s4 = 0 \<and>
                      l2_tag_storage s4 ! 1 = [0x80000002, 0x80000001] \<and>
                      l2_lookup inclusion_cfg 4 s4 = None \<and>
                      l1d_tag_storage s4 ! 1 = [0x80000000, 0x80000004] \<and>
                      dcache_lookup inclusion_cfg 4 s4 = Some 0 \<and>
                      (case dcache_access inclusion_cfg 4 s4 of
                         Inl e \<Rightarrow> False
                       | Inr (t5, s5) \<Rightarrow> t5 = dcacheHitTime inclusion_cfg))))"
  by (subst init_cache_prior) (rule inclusion_from_start)

subsection \<open>Ageing and the invalid marker\<close>

lemma age1_max: "age1 UINT32_MAX = UINT32_MAX"
  by (simp add: age1_def)

lemma l1_bump_keeps_max:
  "j < length l \<Longrightarrow> l ! j = UINT32_MAX \<Longrightarrow> l1_bump n l ! j = UINT32_MAX"
  by (simp add: nth_l1_bump age1_max)

lemma touched_row_keeps_max:
  assumes "j < length (rows ! k)" "j \<noteq> i" "rows ! k ! j = UINT32_MAX"
  shows "rows[k := (l1_bump n (rows ! k))[i := 0]] ! k ! j = UINT32_MAX"
proof (cases "k < length rows")
  case True
  then show ?thesis using assms by (simp add: l1_bump_keeps_max)
next
  case False
  then have "length rows \<le> k" by simp
  then have "rows[k := (l1_bump n (rows ! k))[i := 0]] = rows"
    by (rule list_update_beyond)
  then show ?thesis using assms(3) by simp
qed

lemma icache_hit_keeps_max:
  assumes "icacheSets cfg \<noteq> 0" "icache_lookup cfg addr s = Some i"
    "icache_access cfg addr s = Inr (t, s')"
    "j < length (l1i_lru_storage s ! set_index (blocksize cfg) (icacheSets cfg) addr)"
    "j \<noteq> i"
    "l1i_lru_storage s ! set_index (blocksize cfg) (icacheSets cfg) addr ! j = UINT32_MAX"
  shows "l1i_lru_storage s' ! set_index (blocksize cfg) (icacheSets cfg) addr ! j = UINT32_MAX"
proof -
  have "s' = icache_touch cfg addr i s"
    using assms(1-3) by (cases "blocksize cfg = 0") (simp_all add: icache_access_eq)
  then show ?thesis
    using assms(4-6) by (simp add: icache_touch_def Let_def touched_row_keeps_max)
qed

lemma dcache_hit_keeps_max:
  assumes "dcacheSets cfg \<noteq> 0" "dcache_lookup cfg addr s = Some i"
    "dcache_access cfg addr s = Inr (t, s')"
    "j < length (l1d_lru_storage s ! set_index (blocksize cfg) (dcacheSets cfg) addr)"
    "j \<noteq> i"
    "l1d_lru_storage s ! set_index (blocksize cfg) (dcacheSets cfg) addr ! j = UINT32_MAX"
  shows "l1d_lru_storage s' ! set_index (blocksize cfg) (dcacheSets cfg) addr ! j = UINT32_MAX"
proof -
  have "s' = dcache_touch cfg addr i s"
    using assms(1-3) by (cases "blocksize cfg = 0") (simp_all add: dcache_access_eq)
  then show ?thesis
    using assms(4-6) by (simp add: dcache_touch_def Let_def touched_row_keeps_max)
qed

text \<open>
  C3, as amended. In the L1 instruction cache and the L1 data cache, ageing never changes
  a counter that holds \<^verbatim>\<open>UINT32_MAX\<close>, and after a hit every way of the set other than
  the hit way that held \<^verbatim>\<open>UINT32_MAX\<close> still holds it. (The L2 has no such guard.)
\<close>

theorem l1_hit_keeps_sentinel:
  "(\<forall>j < length l. l ! j = UINT32_MAX \<longrightarrow> l1_bump n l ! j = UINT32_MAX) \<and>
   (icacheSets cfg \<noteq> 0 \<longrightarrow> icache_lookup cfg addr s = Some i \<longrightarrow>
    icache_access cfg addr s = Inr (t, s') \<longrightarrow>
      (\<forall>j < length (l1i_lru_storage s ! set_index (blocksize cfg) (icacheSets cfg) addr).
         j \<noteq> i \<longrightarrow>
         l1i_lru_storage s ! set_index (blocksize cfg) (icacheSets cfg) addr ! j = UINT32_MAX \<longrightarrow>
         l1i_lru_storage s' ! set_index (blocksize cfg) (icacheSets cfg) addr ! j = UINT32_MAX)) \<and>
   (dcacheSets cfg \<noteq> 0 \<longrightarrow> dcache_lookup cfg addr s = Some i \<longrightarrow>
    dcache_access cfg addr s = Inr (t, s') \<longrightarrow>
      (\<forall>j < length (l1d_lru_storage s ! set_index (blocksize cfg) (dcacheSets cfg) addr).
         j \<noteq> i \<longrightarrow>
         l1d_lru_storage s ! set_index (blocksize cfg) (dcacheSets cfg) addr ! j = UINT32_MAX \<longrightarrow>
         l1d_lru_storage s' ! set_index (blocksize cfg) (dcacheSets cfg) addr ! j = UINT32_MAX))"
proof (intro conjI allI impI)
  fix j assume "j < length l" "l ! j = UINT32_MAX"
  then show "l1_bump n l ! j = UINT32_MAX" by (rule l1_bump_keeps_max)
next
  fix j
  assume "icacheSets cfg \<noteq> 0" "icache_lookup cfg addr s = Some i"
    "icache_access cfg addr s = Inr (t, s')"
    "j < length (l1i_lru_storage s ! set_index (blocksize cfg) (icacheSets cfg) addr)"
    "j \<noteq> i"
    "l1i_lru_storage s ! set_index (blocksize cfg) (icacheSets cfg) addr ! j = UINT32_MAX"
  then show "l1i_lru_storage s' ! set_index (blocksize cfg) (icacheSets cfg) addr ! j = UINT32_MAX"
    by (rule icache_hit_keeps_max)
next
  fix j
  assume "dcacheSets cfg \<noteq> 0" "dcache_lookup cfg addr s = Some i"
    "dcache_access cfg addr s = Inr (t, s')"
    "j < length (l1d_lru_storage s ! set_index (blocksize cfg) (dcacheSets cfg) addr)"
    "j \<noteq> i"
    "l1d_lru_storage s ! set_index (blocksize cfg) (dcacheSets cfg) addr ! j = UINT32_MAX"
  then show "l1d_lru_storage s' ! set_index (blocksize cfg) (dcacheSets cfg) addr ! j = UINT32_MAX"
    by (rule dcache_hit_keeps_max)
qed

text \<open>
  C3 as stated fails for the L2: its hit path increments every counter of the set, so a
  counter at \<^verbatim>\<open>UINT32_MAX\<close> wraps to 0.
\<close>

theorem l2_hit_overwrites_sentinel:
  "l2_lookup sentinel_cfg 0 sentinel_state = Some 1 \<and>
   l2_lru_storage sentinel_state ! 0 ! 0 = UINT32_MAX \<and>
   (case l2cache_access sentinel_cfg 0 sentinel_state of
      Inl e \<Rightarrow> False
    | Inr (t, s') \<Rightarrow>
        t = l2cacheHitTime sentinel_cfg \<and>
        l2_lru_storage s' ! 0 ! 0 = 0 \<and> l2_lru_storage s' ! 0 ! 0 \<noteq> UINT32_MAX)"
  by code_simp

theorem l1_hit_keeps_sentinel_witness:
  "(0 :: nat) < length [UINT32_MAX, 0] \<and> [UINT32_MAX, 0] ! 0 = UINT32_MAX \<and>
   l1_bump 2 [UINT32_MAX, 0] ! 0 = UINT32_MAX \<and>
   icacheSets sentinel_cfg \<noteq> 0 \<and>
   icache_lookup sentinel_cfg 0 sentinel_state = Some 1 \<and>
   icache_access sentinel_cfg 0 sentinel_state =
     Inr (1, icache_touch sentinel_cfg 0 1 sentinel_state) \<and>
   l1i_lru_storage sentinel_state ! 0 ! 0 = UINT32_MAX \<and>
   l1i_lru_storage (icache_touch sentinel_cfg 0 1 sentinel_state) ! 0 ! 0 = UINT32_MAX \<and>
   dcacheSets sentinel_cfg \<noteq> 0 \<and>
   dcache_lookup sentinel_cfg 0 sentinel_state = Some 1 \<and>
   dcache_access sentinel_cfg 0 sentinel_state =
     Inr (1, dcache_touch sentinel_cfg 0 1 sentinel_state) \<and>
   l1d_lru_storage sentinel_state ! 0 ! 0 = UINT32_MAX \<and>
   l1d_lru_storage (dcache_touch sentinel_cfg 0 1 sentinel_state) ! 0 ! 0 = UINT32_MAX"
proof -
  have i1: "icacheSets sentinel_cfg \<noteq> 0" by code_simp
  have i2: "icache_lookup sentinel_cfg 0 sentinel_state = Some 1" by code_simp
  have i3: "icache_access sentinel_cfg 0 sentinel_state =
      Inr (1, icache_touch sentinel_cfg 0 1 sentinel_state)" by code_simp
  have i4: "set_index (blocksize sentinel_cfg) (icacheSets sentinel_cfg) 0 = 0" by code_simp
  have i5: "0 < length (l1i_lru_storage sentinel_state ! 0)" by code_simp
  have i6: "l1i_lru_storage sentinel_state ! 0 ! 0 = UINT32_MAX" by code_simp
  have d1: "dcacheSets sentinel_cfg \<noteq> 0" by code_simp
  have d2: "dcache_lookup sentinel_cfg 0 sentinel_state = Some 1" by code_simp
  have d3: "dcache_access sentinel_cfg 0 sentinel_state =
      Inr (1, dcache_touch sentinel_cfg 0 1 sentinel_state)" by code_simp
  have d4: "set_index (blocksize sentinel_cfg) (dcacheSets sentinel_cfg) 0 = 0" by code_simp
  have d5: "0 < length (l1d_lru_storage sentinel_state ! 0)" by code_simp
  have d6: "l1d_lru_storage sentinel_state ! 0 ! 0 = UINT32_MAX" by code_simp
  have i: "l1i_lru_storage (icache_touch sentinel_cfg 0 1 sentinel_state)
        ! set_index (blocksize sentinel_cfg) (icacheSets sentinel_cfg) 0 ! 0 = UINT32_MAX"
  proof (rule l1_hit_keeps_sentinel [THEN conjunct2, THEN conjunct1, rule_format, OF i1 i2 i3])
    show "0 < length (l1i_lru_storage sentinel_state
        ! set_index (blocksize sentinel_cfg) (icacheSets sentinel_cfg) 0)"
      unfolding i4 by (rule i5)
    show "l1i_lru_storage sentinel_state
        ! set_index (blocksize sentinel_cfg) (icacheSets sentinel_cfg) 0 ! 0 = UINT32_MAX"
      unfolding i4 by (rule i6)
  qed simp
  have d: "l1d_lru_storage (dcache_touch sentinel_cfg 0 1 sentinel_state)
        ! set_index (blocksize sentinel_cfg) (dcacheSets sentinel_cfg) 0 ! 0 = UINT32_MAX"
  proof (rule l1_hit_keeps_sentinel [THEN conjunct2, THEN conjunct2, rule_format, OF d1 d2 d3])
    show "0 < length (l1d_lru_storage sentinel_state
        ! set_index (blocksize sentinel_cfg) (dcacheSets sentinel_cfg) 0)"
      unfolding d4 by (rule d5)
    show "l1d_lru_storage sentinel_state
        ! set_index (blocksize sentinel_cfg) (dcacheSets sentinel_cfg) 0 ! 0 = UINT32_MAX"
      unfolding d4 by (rule d6)
  qed simp
  have a1: "(0 :: nat) < length [UINT32_MAX, 0]" by simp
  have a2: "[UINT32_MAX, 0] ! 0 = UINT32_MAX" by simp
  have a3: "l1_bump 2 [UINT32_MAX, 0] ! 0 = UINT32_MAX"
    by (rule l1_hit_keeps_sentinel [THEN conjunct1, rule_format, OF a1 a2])
  show ?thesis
    using a1 a2 a3 i1 i2 i3 i6 i [unfolded i4] d1 d2 d3 d6 d [unfolded d4] by (intro conjI)
qed

subsection \<open>What a hit in an L1 changes\<close>

lemma icache_access_hit:
  "icacheSets cfg \<noteq> 0 \<Longrightarrow> icache_lookup cfg addr s = Some i \<Longrightarrow>
   icache_access cfg addr s = Inr (t, s') \<Longrightarrow>
   t = icacheHitTime cfg \<and> s' = icache_touch cfg addr i s"
  by (cases "blocksize cfg = 0") (simp_all add: icache_access_eq)

lemma dcache_access_hit:
  "dcacheSets cfg \<noteq> 0 \<Longrightarrow> dcache_lookup cfg addr s = Some i \<Longrightarrow>
   dcache_access cfg addr s = Inr (t, s') \<Longrightarrow>
   t = dcacheHitTime cfg \<and> s' = dcache_touch cfg addr i s"
  by (cases "blocksize cfg = 0") (simp_all add: dcache_access_eq)

lemma icache_touch_frame:
  "icache_touch cfg addr i s =
     s\<lparr>icacheRefs := icacheRefs s + 1,
       l1i_lru_storage := l1i_lru_storage (icache_touch cfg addr i s)\<rparr> \<and>
   length (l1i_lru_storage (icache_touch cfg addr i s)) = length (l1i_lru_storage s) \<and>
   (\<forall>k. k \<noteq> set_index (blocksize cfg) (icacheSets cfg) addr \<longrightarrow>
      l1i_lru_storage (icache_touch cfg addr i s) ! k = l1i_lru_storage s ! k)"
  by (simp add: icache_touch_def Let_def)

lemma dcache_touch_frame:
  "dcache_touch cfg addr i s =
     s\<lparr>dcacheRefs := dcacheRefs s + 1,
       l1d_lru_storage := l1d_lru_storage (dcache_touch cfg addr i s)\<rparr> \<and>
   length (l1d_lru_storage (dcache_touch cfg addr i s)) = length (l1d_lru_storage s) \<and>
   (\<forall>k. k \<noteq> set_index (blocksize cfg) (dcacheSets cfg) addr \<longrightarrow>
      l1d_lru_storage (dcache_touch cfg addr i s) ! k = l1d_lru_storage s ! k)"
  by (simp add: dcache_touch_def Let_def)

text \<open>
  C9. When an instruction or data access hits in its L1, the access returns that L1's hit
  time and the state differs from the old one only in that L1's reference counter (one
  more) and in its recency array, where only the row of the set the address maps to can
  differ. Tag arrays, miss and penalty counters, the other L1, the L2's storage and
  statistics and the L2 eviction signal are as before.
\<close>

theorem l1_hit_frame:
  "(icacheSets cfg \<noteq> 0 \<longrightarrow> icache_lookup cfg addr s \<noteq> None \<longrightarrow>
    icache_access cfg addr s = Inr (t, s') \<longrightarrow>
      t = icacheHitTime cfg \<and>
      s' = s\<lparr>icacheRefs := icacheRefs s + 1, l1i_lru_storage := l1i_lru_storage s'\<rparr> \<and>
      length (l1i_lru_storage s') = length (l1i_lru_storage s) \<and>
      (\<forall>k. k \<noteq> set_index (blocksize cfg) (icacheSets cfg) addr \<longrightarrow>
         l1i_lru_storage s' ! k = l1i_lru_storage s ! k)) \<and>
   (dcacheSets cfg \<noteq> 0 \<longrightarrow> dcache_lookup cfg addr s \<noteq> None \<longrightarrow>
    dcache_access cfg addr s = Inr (t, s') \<longrightarrow>
      t = dcacheHitTime cfg \<and>
      s' = s\<lparr>dcacheRefs := dcacheRefs s + 1, l1d_lru_storage := l1d_lru_storage s'\<rparr> \<and>
      length (l1d_lru_storage s') = length (l1d_lru_storage s) \<and>
      (\<forall>k. k \<noteq> set_index (blocksize cfg) (dcacheSets cfg) addr \<longrightarrow>
         l1d_lru_storage s' ! k = l1d_lru_storage s ! k))"
proof (rule conjI; intro impI)
  assume a: "icacheSets cfg \<noteq> 0" "icache_lookup cfg addr s \<noteq> None"
    "icache_access cfg addr s = Inr (t, s')"
  then obtain i where "icache_lookup cfg addr s = Some i" by auto
  with a have "t = icacheHitTime cfg" "s' = icache_touch cfg addr i s"
    using icache_access_hit by blast+
  then show "t = icacheHitTime cfg \<and>
      s' = s\<lparr>icacheRefs := icacheRefs s + 1, l1i_lru_storage := l1i_lru_storage s'\<rparr> \<and>
      length (l1i_lru_storage s') = length (l1i_lru_storage s) \<and>
      (\<forall>k. k \<noteq> set_index (blocksize cfg) (icacheSets cfg) addr \<longrightarrow>
         l1i_lru_storage s' ! k = l1i_lru_storage s ! k)"
    using icache_touch_frame [of cfg addr i s] by simp
next
  assume a: "dcacheSets cfg \<noteq> 0" "dcache_lookup cfg addr s \<noteq> None"
    "dcache_access cfg addr s = Inr (t, s')"
  then obtain i where "dcache_lookup cfg addr s = Some i" by auto
  with a have "t = dcacheHitTime cfg" "s' = dcache_touch cfg addr i s"
    using dcache_access_hit by blast+
  then show "t = dcacheHitTime cfg \<and>
      s' = s\<lparr>dcacheRefs := dcacheRefs s + 1, l1d_lru_storage := l1d_lru_storage s'\<rparr> \<and>
      length (l1d_lru_storage s') = length (l1d_lru_storage s) \<and>
      (\<forall>k. k \<noteq> set_index (blocksize cfg) (dcacheSets cfg) addr \<longrightarrow>
         l1d_lru_storage s' ! k = l1d_lru_storage s ! k)"
    using dcache_touch_frame [of cfg addr i s] by simp
qed

theorem l1_hit_frame_witness:
  "icacheSets sentinel_cfg \<noteq> 0 \<and>
   icache_lookup sentinel_cfg 0 sentinel_state \<noteq> None \<and>
   icache_access sentinel_cfg 0 sentinel_state =
     Inr (1, icache_touch sentinel_cfg 0 1 sentinel_state) \<and>
   icache_touch sentinel_cfg 0 1 sentinel_state =
     sentinel_state
       \<lparr>icacheRefs := icacheRefs sentinel_state + 1,
        l1i_lru_storage := l1i_lru_storage (icache_touch sentinel_cfg 0 1 sentinel_state)\<rparr> \<and>
   dcacheSets sentinel_cfg \<noteq> 0 \<and>
   dcache_lookup sentinel_cfg 0 sentinel_state \<noteq> None \<and>
   dcache_access sentinel_cfg 0 sentinel_state =
     Inr (1, dcache_touch sentinel_cfg 0 1 sentinel_state) \<and>
   dcache_touch sentinel_cfg 0 1 sentinel_state =
     sentinel_state
       \<lparr>dcacheRefs := dcacheRefs sentinel_state + 1,
        l1d_lru_storage := l1d_lru_storage (dcache_touch sentinel_cfg 0 1 sentinel_state)\<rparr>"
proof -
  have i1: "icacheSets sentinel_cfg \<noteq> 0" by code_simp
  have i2: "icache_lookup sentinel_cfg 0 sentinel_state \<noteq> None" by code_simp
  have i3: "icache_access sentinel_cfg 0 sentinel_state =
      Inr (1, icache_touch sentinel_cfg 0 1 sentinel_state)" by code_simp
  have d1: "dcacheSets sentinel_cfg \<noteq> 0" by code_simp
  have d2: "dcache_lookup sentinel_cfg 0 sentinel_state \<noteq> None" by code_simp
  have d3: "dcache_access sentinel_cfg 0 sentinel_state =
      Inr (1, dcache_touch sentinel_cfg 0 1 sentinel_state)" by code_simp
  note i = l1_hit_frame [THEN conjunct1, rule_format, OF i1 i2 i3, THEN conjunct2, THEN conjunct1]
  note d = l1_hit_frame [THEN conjunct2, rule_format, OF d1 d2 d3, THEN conjunct2, THEN conjunct1]
  show ?thesis
    using i1 i2 i3 i d1 d2 d3 d by (intro conjI)
qed

subsection \<open>Bypassed levels and the latency of a full miss\<close>

lemma l2_touch_l1 [simp]:
  "icacheRefs (l2_touch cfg addr i s) = icacheRefs s"
  "icacheMisses (l2_touch cfg addr i s) = icacheMisses s"
  "icachePenalties (l2_touch cfg addr i s) = icachePenalties s"
  "dcacheRefs (l2_touch cfg addr i s) = dcacheRefs s"
  "dcacheMisses (l2_touch cfg addr i s) = dcacheMisses s"
  "dcachePenalties (l2_touch cfg addr i s) = dcachePenalties s"
  "l1i_tag_storage (l2_touch cfg addr i s) = l1i_tag_storage s"
  "l1i_lru_storage (l2_touch cfg addr i s) = l1i_lru_storage s"
  "l1d_tag_storage (l2_touch cfg addr i s) = l1d_tag_storage s"
  "l1d_lru_storage (l2_touch cfg addr i s) = l1d_lru_storage s"
  by (simp_all add: l2_touch_def Let_def)

lemma l2_fill_l1 [simp]:
  "icacheRefs (l2_fill cfg addr s) = icacheRefs s"
  "icacheMisses (l2_fill cfg addr s) = icacheMisses s"
  "icachePenalties (l2_fill cfg addr s) = icachePenalties s"
  "dcacheRefs (l2_fill cfg addr s) = dcacheRefs s"
  "dcacheMisses (l2_fill cfg addr s) = dcacheMisses s"
  "dcachePenalties (l2_fill cfg addr s) = dcachePenalties s"
  "l1i_tag_storage (l2_fill cfg addr s) = l1i_tag_storage s"
  "l1i_lru_storage (l2_fill cfg addr s) = l1i_lru_storage s"
  "l1d_tag_storage (l2_fill cfg addr s) = l1d_tag_storage s"
  "l1d_lru_storage (l2_fill cfg addr s) = l1d_lru_storage s"
  by (simp_all add: l2_fill_def Let_def split: prod.splits)

lemma l2cache_access_cases:
  assumes "l2cache_access cfg addr s = Inr (t, s')"
  obtains (bypass) "l2cacheSets cfg = 0" "t = memspeed cfg" "s' = s\<lparr>l2_did_evict := False\<rparr>"
  | (hit) i where "l2cacheSets cfg \<noteq> 0" "blocksize cfg \<noteq> 0" "l2_lookup cfg addr s = Some i"
      "t = l2cacheHitTime cfg" "s' = l2_touch cfg addr i s"
  | (miss) "l2cacheSets cfg \<noteq> 0" "blocksize cfg \<noteq> 0" "l2_lookup cfg addr s = None"
      "l2cacheAssoc cfg \<noteq> 0" "t = l2cacheHitTime cfg + memspeed cfg" "s' = l2_fill cfg addr s"
  using assms unfolding l2cache_access_eq
  by (auto split: if_splits option.splits)

lemma l2cache_access_l1:
  assumes "l2cache_access cfg addr s = Inr (t, s')"
  shows "icacheRefs s' = icacheRefs s" "icacheMisses s' = icacheMisses s"
    "icachePenalties s' = icachePenalties s" "dcacheRefs s' = dcacheRefs s"
    "dcacheMisses s' = dcacheMisses s" "dcachePenalties s' = dcachePenalties s"
    "l1i_tag_storage s' = l1i_tag_storage s" "l1i_lru_storage s' = l1i_lru_storage s"
    "l1d_tag_storage s' = l1d_tag_storage s" "l1d_lru_storage s' = l1d_lru_storage s"
  using assms by (cases rule: l2cache_access_cases; simp)+

lemma icache_fill_l2 [simp]: "l2_tag_storage (icache_fill cfg addr s) = l2_tag_storage s"
  by (simp add: icache_fill_def Let_def split: prod.splits)

lemma dcache_fill_l2 [simp]: "l2_tag_storage (dcache_fill cfg addr s) = l2_tag_storage s"
  by (simp add: dcache_fill_def Let_def split: prod.splits)

lemma l2_lookup_icache_fill [simp]:
  "l2_lookup cfg addr (icache_fill cfg a s) = l2_lookup cfg addr s"
  by (simp add: l2_lookup_def)

lemma l2_lookup_dcache_fill [simp]:
  "l2_lookup cfg addr (dcache_fill cfg a s) = l2_lookup cfg addr s"
  by (simp add: l2_lookup_def)

lemma l2_full_miss_time:
  assumes "l2cache_access cfg addr s = Inr (t, s')"
    and "l2cacheSets cfg = 0 \<or> l2_lookup cfg addr s = None"
  shows "t = level_time (l2cacheSets cfg) (l2cacheHitTime cfg) + memspeed cfg"
  using assms by (cases rule: l2cache_access_cases) (simp_all add: level_time_def)

lemma icache_access_miss:
  assumes "icacheSets cfg \<noteq> 0" "icache_lookup cfg addr s = None"
    "icache_access cfg addr s = Inr (t, s')"
  obtains t2 s4 where "l2cache_access cfg addr (icache_fill cfg addr s) = Inr (t2, s4)"
    "t = icacheHitTime cfg + t2"
    "s' = (icache_inclusion cfg s4)\<lparr>icachePenalties := icachePenalties s4 + ucast t2\<rparr>"
    "blocksize cfg \<noteq> 0" "icacheAssoc cfg \<noteq> 0"
proof -
  have b: "blocksize cfg \<noteq> 0"
    using assms by (cases "blocksize cfg = 0") (simp_all add: icache_access_eq)
  have a: "icacheAssoc cfg \<noteq> 0"
    using assms b by (cases "icacheAssoc cfg = 0") (simp_all add: icache_access_eq)
  show thesis
  proof (cases "l2cache_access cfg addr (icache_fill cfg addr s)")
    case (Inl e)
    then show ?thesis using assms a b by (simp add: icache_access_eq)
  next
    case (Inr r)
    obtain t2 s4 where r: "r = (t2, s4)" by (cases r)
    show ?thesis
      using assms a b Inr r by (intro that [of t2 s4]) (simp_all add: icache_access_eq)
  qed
qed

lemma dcache_access_miss:
  assumes "dcacheSets cfg \<noteq> 0" "dcache_lookup cfg addr s = None"
    "dcache_access cfg addr s = Inr (t, s')"
  obtains t2 s4 where "l2cache_access cfg addr (dcache_fill cfg addr s) = Inr (t2, s4)"
    "t = dcacheHitTime cfg + t2"
    "s' = (dcache_inclusion cfg s4)\<lparr>dcachePenalties := dcachePenalties s4 + ucast t2\<rparr>"
    "blocksize cfg \<noteq> 0" "dcacheAssoc cfg \<noteq> 0"
proof -
  have b: "blocksize cfg \<noteq> 0"
    using assms by (cases "blocksize cfg = 0") (simp_all add: dcache_access_eq)
  have a: "dcacheAssoc cfg \<noteq> 0"
    using assms b by (cases "dcacheAssoc cfg = 0") (simp_all add: dcache_access_eq)
  show thesis
  proof (cases "l2cache_access cfg addr (dcache_fill cfg addr s)")
    case (Inl e)
    then show ?thesis using assms a b by (simp add: dcache_access_eq)
  next
    case (Inr r)
    obtain t2 s4 where r: "r = (t2, s4)" by (cases r)
    show ?thesis
      using assms a b Inr r by (intro that [of t2 s4]) (simp_all add: dcache_access_eq)
  qed
qed

lemma icache_full_miss_time:
  assumes r: "icache_access cfg addr s = Inr (t, s')"
    and m1: "icacheSets cfg = 0 \<or> icache_lookup cfg addr s = None"
    and m2: "l2cacheSets cfg = 0 \<or> l2_lookup cfg addr s = None"
  shows "t = level_time (icacheSets cfg) (icacheHitTime cfg)
           + level_time (l2cacheSets cfg) (l2cacheHitTime cfg) + memspeed cfg"
proof (cases "icacheSets cfg = 0")
  case True
  then have "l2cache_access cfg addr s = Inr (t, s')" using r by (simp add: icache_access_eq)
  from l2_full_miss_time [OF this m2] True show ?thesis by (simp add: level_time_def)
next
  case False
  with m1 have none: "icache_lookup cfg addr s = None" by simp
  from False none r obtain t2 s4
    where l2: "l2cache_access cfg addr (icache_fill cfg addr s) = Inr (t2, s4)"
      and t: "t = icacheHitTime cfg + t2"
    by (rule icache_access_miss)
  have "l2cacheSets cfg = 0 \<or> l2_lookup cfg addr (icache_fill cfg addr s) = None"
    using m2 by simp
  from l2_full_miss_time [OF l2 this] t False show ?thesis
    by (simp add: level_time_def add.assoc)
qed

lemma dcache_full_miss_time:
  assumes r: "dcache_access cfg addr s = Inr (t, s')"
    and m1: "dcacheSets cfg = 0 \<or> dcache_lookup cfg addr s = None"
    and m2: "l2cacheSets cfg = 0 \<or> l2_lookup cfg addr s = None"
  shows "t = level_time (dcacheSets cfg) (dcacheHitTime cfg)
           + level_time (l2cacheSets cfg) (l2cacheHitTime cfg) + memspeed cfg"
proof (cases "dcacheSets cfg = 0")
  case True
  then have "l2cache_access cfg addr s = Inr (t, s')" using r by (simp add: dcache_access_eq)
  from l2_full_miss_time [OF this m2] True show ?thesis by (simp add: level_time_def)
next
  case False
  with m1 have none: "dcache_lookup cfg addr s = None" by simp
  from False none r obtain t2 s4
    where l2: "l2cache_access cfg addr (dcache_fill cfg addr s) = Inr (t2, s4)"
      and t: "t = dcacheHitTime cfg + t2"
    by (rule dcache_access_miss)
  have "l2cacheSets cfg = 0 \<or> l2_lookup cfg addr (dcache_fill cfg addr s) = None"
    using m2 by simp
  from l2_full_miss_time [OF l2 this] t False show ?thesis
    by (simp add: level_time_def add.assoc)
qed

text \<open>The access functions return a latency whenever the levels they go through are defined.\<close>

lemma l2cache_access_returns:
  assumes "level_defined cfg (l2cacheSets cfg) (l2cacheAssoc cfg)"
  shows "\<exists>t s'. l2cache_access cfg addr s = Inr (t, s')"
proof (cases "l2cacheSets cfg = 0")
  case True
  then show ?thesis by (simp add: l2cache_access_eq)
next
  case False
  with assms have "blocksize cfg \<noteq> 0" "l2cacheAssoc cfg \<noteq> 0"
    by (simp_all add: level_defined_def)
  with False show ?thesis
    by (cases "l2_lookup cfg addr s") (simp_all add: l2cache_access_eq)
qed

lemma icache_access_returns:
  assumes "level_defined cfg (icacheSets cfg) (icacheAssoc cfg)"
    and "level_defined cfg (l2cacheSets cfg) (l2cacheAssoc cfg)"
  shows "\<exists>t s'. icache_access cfg addr s = Inr (t, s')"
proof (cases "icacheSets cfg = 0")
  case True
  then show ?thesis
    using l2cache_access_returns [OF assms(2)] by (simp add: icache_access_eq)
next
  case False
  with assms(1) have d: "blocksize cfg \<noteq> 0" "icacheAssoc cfg \<noteq> 0"
    by (simp_all add: level_defined_def)
  obtain t2 s4 where "l2cache_access cfg addr (icache_fill cfg addr s) = Inr (t2, s4)"
    using l2cache_access_returns [OF assms(2)] by blast
  with False d show ?thesis
    by (cases "icache_lookup cfg addr s") (simp_all add: icache_access_eq)
qed

lemma dcache_access_returns:
  assumes "level_defined cfg (dcacheSets cfg) (dcacheAssoc cfg)"
    and "level_defined cfg (l2cacheSets cfg) (l2cacheAssoc cfg)"
  shows "\<exists>t s'. dcache_access cfg addr s = Inr (t, s')"
proof (cases "dcacheSets cfg = 0")
  case True
  then show ?thesis
    using l2cache_access_returns [OF assms(2)] by (simp add: dcache_access_eq)
next
  case False
  with assms(1) have d: "blocksize cfg \<noteq> 0" "dcacheAssoc cfg \<noteq> 0"
    by (simp_all add: level_defined_def)
  obtain t2 s4 where "l2cache_access cfg addr (dcache_fill cfg addr s) = Inr (t2, s4)"
    using l2cache_access_returns [OF assms(2)] by blast
  with False d show ?thesis
    by (cases "dcache_lookup cfg addr s") (simp_all add: dcache_access_eq)
qed

lemma unat_sum3:
  fixes a b c :: u32
  assumes "unat a + unat b + unat c < 2 ^ 32"
  shows "unat (a + b + c) = unat a + unat b + unat c"
proof -
  have "unat a + unat b < 2 ^ LENGTH(32)" using assms by simp
  then have ab: "unat (a + b) = unat a + unat b" by (simp only: unat_add_lem)
  have "unat (a + b) + unat c < 2 ^ LENGTH(32)" using assms ab by simp
  then have "unat (a + b + c) = unat (a + b) + unat c" by (simp only: unat_add_lem)
  with ab show ?thesis by simp
qed

text \<open>
  C6. A level whose set count is 0 is bypassed: an L1 access is the L2 access (same
  latency, same state), an L2 access returns the memory latency, and the bypassed level's
  reference, miss and penalty counters stay as they were. When every enabled level on the
  path misses, the latency is the sum of the enabled levels' hit times and the memory
  latency, in \<^verbatim>\<open>uint32_t\<close> arithmetic, and as a natural number when that sum fits 32
  bits. The accesses return a latency whenever each enabled level has a nonzero block size
  and associativity.
\<close>

theorem bypass_and_full_miss:
  "(icacheSets cfg = 0 \<longrightarrow> icache_access cfg addr s = l2cache_access cfg addr s) \<and>
   (dcacheSets cfg = 0 \<longrightarrow> dcache_access cfg addr s = l2cache_access cfg addr s) \<and>
   (l2cacheSets cfg = 0 \<longrightarrow>
      l2cache_access cfg addr s = Inr (memspeed cfg, s\<lparr>l2_did_evict := False\<rparr>)) \<and>
   (icacheSets cfg = 0 \<longrightarrow> icache_access cfg addr s = Inr (t, s') \<longrightarrow>
      icacheRefs s' = icacheRefs s \<and> icacheMisses s' = icacheMisses s \<and>
      icachePenalties s' = icachePenalties s) \<and>
   (dcacheSets cfg = 0 \<longrightarrow> dcache_access cfg addr s = Inr (t, s') \<longrightarrow>
      dcacheRefs s' = dcacheRefs s \<and> dcacheMisses s' = dcacheMisses s \<and>
      dcachePenalties s' = dcachePenalties s) \<and>
   (l2cacheSets cfg = 0 \<longrightarrow> l2cache_access cfg addr s = Inr (t, s') \<longrightarrow>
      l2cacheRefs s' = l2cacheRefs s \<and> l2cacheMisses s' = l2cacheMisses s \<and>
      l2cachePenalties s' = l2cachePenalties s) \<and>
   (icache_access cfg addr s = Inr (t, s') \<longrightarrow>
    (icacheSets cfg = 0 \<or> icache_lookup cfg addr s = None) \<longrightarrow>
    (l2cacheSets cfg = 0 \<or> l2_lookup cfg addr s = None) \<longrightarrow>
      t = level_time (icacheSets cfg) (icacheHitTime cfg)
          + level_time (l2cacheSets cfg) (l2cacheHitTime cfg) + memspeed cfg) \<and>
   (dcache_access cfg addr s = Inr (t, s') \<longrightarrow>
    (dcacheSets cfg = 0 \<or> dcache_lookup cfg addr s = None) \<longrightarrow>
    (l2cacheSets cfg = 0 \<or> l2_lookup cfg addr s = None) \<longrightarrow>
      t = level_time (dcacheSets cfg) (dcacheHitTime cfg)
          + level_time (l2cacheSets cfg) (l2cacheHitTime cfg) + memspeed cfg) \<and>
   (l2cache_access cfg addr s = Inr (t, s') \<longrightarrow>
    (l2cacheSets cfg = 0 \<or> l2_lookup cfg addr s = None) \<longrightarrow>
      t = level_time (l2cacheSets cfg) (l2cacheHitTime cfg) + memspeed cfg) \<and>
   (level_defined cfg (l2cacheSets cfg) (l2cacheAssoc cfg) \<longrightarrow>
      (\<exists>t s'. l2cache_access cfg addr s = Inr (t, s')) \<and>
      (level_defined cfg (icacheSets cfg) (icacheAssoc cfg) \<longrightarrow>
         (\<exists>t s'. icache_access cfg addr s = Inr (t, s'))) \<and>
      (level_defined cfg (dcacheSets cfg) (dcacheAssoc cfg) \<longrightarrow>
         (\<exists>t s'. dcache_access cfg addr s = Inr (t, s')))) \<and>
   (unat (level_time (icacheSets cfg) (icacheHitTime cfg))
      + unat (level_time (l2cacheSets cfg) (l2cacheHitTime cfg)) + unat (memspeed cfg) < 2 ^ 32 \<longrightarrow>
    unat (level_time (icacheSets cfg) (icacheHitTime cfg)
          + level_time (l2cacheSets cfg) (l2cacheHitTime cfg) + memspeed cfg)
    = unat (level_time (icacheSets cfg) (icacheHitTime cfg))
      + unat (level_time (l2cacheSets cfg) (l2cacheHitTime cfg)) + unat (memspeed cfg)) \<and>
   (unat (level_time (dcacheSets cfg) (dcacheHitTime cfg))
      + unat (level_time (l2cacheSets cfg) (l2cacheHitTime cfg)) + unat (memspeed cfg) < 2 ^ 32 \<longrightarrow>
    unat (level_time (dcacheSets cfg) (dcacheHitTime cfg)
          + level_time (l2cacheSets cfg) (l2cacheHitTime cfg) + memspeed cfg)
    = unat (level_time (dcacheSets cfg) (dcacheHitTime cfg))
      + unat (level_time (l2cacheSets cfg) (l2cacheHitTime cfg)) + unat (memspeed cfg))"
proof -
  have p1: "icacheSets cfg = 0 \<longrightarrow> icache_access cfg addr s = l2cache_access cfg addr s"
    by (simp add: icache_access_eq)
  have p2: "dcacheSets cfg = 0 \<longrightarrow> dcache_access cfg addr s = l2cache_access cfg addr s"
    by (simp add: dcache_access_eq)
  have p3: "l2cacheSets cfg = 0 \<longrightarrow>
      l2cache_access cfg addr s = Inr (memspeed cfg, s\<lparr>l2_did_evict := False\<rparr>)"
    by (simp add: l2cache_access_eq)
  have p4: "icacheSets cfg = 0 \<longrightarrow> icache_access cfg addr s = Inr (t, s') \<longrightarrow>
      icacheRefs s' = icacheRefs s \<and> icacheMisses s' = icacheMisses s \<and>
      icachePenalties s' = icachePenalties s"
    using p1 l2cache_access_l1 (1-3) [of cfg addr s t s'] by simp
  have p5: "dcacheSets cfg = 0 \<longrightarrow> dcache_access cfg addr s = Inr (t, s') \<longrightarrow>
      dcacheRefs s' = dcacheRefs s \<and> dcacheMisses s' = dcacheMisses s \<and>
      dcachePenalties s' = dcachePenalties s"
    using p2 l2cache_access_l1 (4-6) [of cfg addr s t s'] by simp
  have p6: "l2cacheSets cfg = 0 \<longrightarrow> l2cache_access cfg addr s = Inr (t, s') \<longrightarrow>
      l2cacheRefs s' = l2cacheRefs s \<and> l2cacheMisses s' = l2cacheMisses s \<and>
      l2cachePenalties s' = l2cachePenalties s"
    using p3 by auto
  have p7: "icache_access cfg addr s = Inr (t, s') \<longrightarrow>
    (icacheSets cfg = 0 \<or> icache_lookup cfg addr s = None) \<longrightarrow>
    (l2cacheSets cfg = 0 \<or> l2_lookup cfg addr s = None) \<longrightarrow>
      t = level_time (icacheSets cfg) (icacheHitTime cfg)
          + level_time (l2cacheSets cfg) (l2cacheHitTime cfg) + memspeed cfg"
    using icache_full_miss_time by blast
  have p8: "dcache_access cfg addr s = Inr (t, s') \<longrightarrow>
    (dcacheSets cfg = 0 \<or> dcache_lookup cfg addr s = None) \<longrightarrow>
    (l2cacheSets cfg = 0 \<or> l2_lookup cfg addr s = None) \<longrightarrow>
      t = level_time (dcacheSets cfg) (dcacheHitTime cfg)
          + level_time (l2cacheSets cfg) (l2cacheHitTime cfg) + memspeed cfg"
    using dcache_full_miss_time by blast
  have p9: "l2cache_access cfg addr s = Inr (t, s') \<longrightarrow>
    (l2cacheSets cfg = 0 \<or> l2_lookup cfg addr s = None) \<longrightarrow>
      t = level_time (l2cacheSets cfg) (l2cacheHitTime cfg) + memspeed cfg"
    using l2_full_miss_time by blast
  have p10: "level_defined cfg (l2cacheSets cfg) (l2cacheAssoc cfg) \<longrightarrow>
      (\<exists>t s'. l2cache_access cfg addr s = Inr (t, s')) \<and>
      (level_defined cfg (icacheSets cfg) (icacheAssoc cfg) \<longrightarrow>
         (\<exists>t s'. icache_access cfg addr s = Inr (t, s'))) \<and>
      (level_defined cfg (dcacheSets cfg) (dcacheAssoc cfg) \<longrightarrow>
         (\<exists>t s'. dcache_access cfg addr s = Inr (t, s')))"
    using l2cache_access_returns icache_access_returns dcache_access_returns by blast
  have p11: "unat (level_time (icacheSets cfg) (icacheHitTime cfg))
      + unat (level_time (l2cacheSets cfg) (l2cacheHitTime cfg)) + unat (memspeed cfg) < 2 ^ 32 \<longrightarrow>
    unat (level_time (icacheSets cfg) (icacheHitTime cfg)
          + level_time (l2cacheSets cfg) (l2cacheHitTime cfg) + memspeed cfg)
    = unat (level_time (icacheSets cfg) (icacheHitTime cfg))
      + unat (level_time (l2cacheSets cfg) (l2cacheHitTime cfg)) + unat (memspeed cfg)"
    by (rule impI) (rule unat_sum3)
  have p12: "unat (level_time (dcacheSets cfg) (dcacheHitTime cfg))
      + unat (level_time (l2cacheSets cfg) (l2cacheHitTime cfg)) + unat (memspeed cfg) < 2 ^ 32 \<longrightarrow>
    unat (level_time (dcacheSets cfg) (dcacheHitTime cfg)
          + level_time (l2cacheSets cfg) (l2cacheHitTime cfg) + memspeed cfg)
    = unat (level_time (dcacheSets cfg) (dcacheHitTime cfg))
      + unat (level_time (l2cacheSets cfg) (l2cacheHitTime cfg)) + unat (memspeed cfg)"
    by (rule impI) (rule unat_sum3)
  show ?thesis
    using p1 p2 p3 p4 p5 p6 p7 p8 p9 p10 p11 p12 by (intro conjI)
qed

theorem bypass_and_full_miss_witness:
  "icacheSets memory_cfg = 0 \<and> dcacheSets memory_cfg = 0 \<and> l2cacheSets memory_cfg = 0 \<and>
   level_defined memory_cfg (icacheSets memory_cfg) (icacheAssoc memory_cfg) \<and>
   level_defined memory_cfg (dcacheSets memory_cfg) (dcacheAssoc memory_cfg) \<and>
   level_defined memory_cfg (l2cacheSets memory_cfg) (l2cacheAssoc memory_cfg) \<and>
   icache_access memory_cfg 0 (init_cache memory_cfg program_start) =
     Inr (50, init_cache memory_cfg program_start) \<and>
   dcache_access memory_cfg 0 (init_cache memory_cfg program_start) =
     Inr (50, init_cache memory_cfg program_start) \<and>
   l2cache_access memory_cfg 0 (init_cache memory_cfg program_start) =
     Inr (50, init_cache memory_cfg program_start) \<and>
   (50 :: u32) = level_time (icacheSets memory_cfg) (icacheHitTime memory_cfg)
        + level_time (l2cacheSets memory_cfg) (l2cacheHitTime memory_cfg) + memspeed memory_cfg \<and>
   (50 :: u32) = level_time (dcacheSets memory_cfg) (dcacheHitTime memory_cfg)
        + level_time (l2cacheSets memory_cfg) (l2cacheHitTime memory_cfg) + memspeed memory_cfg \<and>
   icacheSets scenario_cfg = 0 \<and>
   l2_lookup scenario_cfg 0 (init_cache scenario_cfg program_start) = None \<and>
   icache_access scenario_cfg 0 (init_cache scenario_cfg program_start) =
     Inr (55, l2_fill scenario_cfg 0 (init_cache scenario_cfg program_start)) \<and>
   (55 :: u32) = level_time (icacheSets scenario_cfg) (icacheHitTime scenario_cfg)
        + level_time (l2cacheSets scenario_cfg) (l2cacheHitTime scenario_cfg)
        + memspeed scenario_cfg \<and>
   icacheRefs (l2_fill scenario_cfg 0 (init_cache scenario_cfg program_start)) =
     icacheRefs (init_cache scenario_cfg program_start) \<and>
   unat (level_time (icacheSets scenario_cfg) (icacheHitTime scenario_cfg))
     + unat (level_time (l2cacheSets scenario_cfg) (l2cacheHitTime scenario_cfg))
     + unat (memspeed scenario_cfg) < 2 ^ 32 \<and>
   unat (level_time (icacheSets scenario_cfg) (icacheHitTime scenario_cfg)
         + level_time (l2cacheSets scenario_cfg) (l2cacheHitTime scenario_cfg)
         + memspeed scenario_cfg)
   = unat (level_time (icacheSets scenario_cfg) (icacheHitTime scenario_cfg))
     + unat (level_time (l2cacheSets scenario_cfg) (l2cacheHitTime scenario_cfg))
     + unat (memspeed scenario_cfg)"
proof -
  let ?m = "init_cache memory_cfg program_start"
  let ?s = "init_cache scenario_cfg program_start"
  have m1: "icacheSets memory_cfg = 0" by code_simp
  have m2: "dcacheSets memory_cfg = 0" by code_simp
  have m3: "l2cacheSets memory_cfg = 0" by code_simp
  have m4: "level_defined memory_cfg (icacheSets memory_cfg) (icacheAssoc memory_cfg)"
    by code_simp
  have m5: "level_defined memory_cfg (dcacheSets memory_cfg) (dcacheAssoc memory_cfg)"
    by code_simp
  have m6: "level_defined memory_cfg (l2cacheSets memory_cfg) (l2cacheAssoc memory_cfg)"
    by code_simp
  have m7: "icache_access memory_cfg 0 ?m = Inr (50, ?m)" by code_simp
  have m8: "dcache_access memory_cfg 0 ?m = Inr (50, ?m)" by code_simp
  have m9: "l2cache_access memory_cfg 0 ?m = Inr (50, ?m)" by code_simp
  note M = bypass_and_full_miss [of memory_cfg 0 ?m 50 ?m]
  have m10: "(50 :: u32) = level_time (icacheSets memory_cfg) (icacheHitTime memory_cfg)
        + level_time (l2cacheSets memory_cfg) (l2cacheHitTime memory_cfg) + memspeed memory_cfg"
    using M m1 m3 m7 by blast
  have m11: "(50 :: u32) = level_time (dcacheSets memory_cfg) (dcacheHitTime memory_cfg)
        + level_time (l2cacheSets memory_cfg) (l2cacheHitTime memory_cfg) + memspeed memory_cfg"
    using M m2 m3 m8 by blast
  have s1: "icacheSets scenario_cfg = 0" by code_simp
  have s2: "l2_lookup scenario_cfg 0 ?s = None" by code_simp
  have s3: "icache_access scenario_cfg 0 ?s = Inr (55, l2_fill scenario_cfg 0 ?s)"
    by code_simp
  note S = bypass_and_full_miss [of scenario_cfg 0 ?s 55 "l2_fill scenario_cfg 0 ?s"]
  have s4: "(55 :: u32) = level_time (icacheSets scenario_cfg) (icacheHitTime scenario_cfg)
        + level_time (l2cacheSets scenario_cfg) (l2cacheHitTime scenario_cfg)
        + memspeed scenario_cfg"
    using S s1 s2 s3 by blast
  have s5: "icacheRefs (l2_fill scenario_cfg 0 ?s) = icacheRefs ?s"
    using S s1 s3 by blast
  have s6: "unat (level_time (icacheSets scenario_cfg) (icacheHitTime scenario_cfg))
     + unat (level_time (l2cacheSets scenario_cfg) (l2cacheHitTime scenario_cfg))
     + unat (memspeed scenario_cfg) < 2 ^ 32"
    by (simp add: level_time_def scenario_cfg_def)
  have s7: "unat (level_time (icacheSets scenario_cfg) (icacheHitTime scenario_cfg)
         + level_time (l2cacheSets scenario_cfg) (l2cacheHitTime scenario_cfg)
         + memspeed scenario_cfg)
   = unat (level_time (icacheSets scenario_cfg) (icacheHitTime scenario_cfg))
     + unat (level_time (l2cacheSets scenario_cfg) (l2cacheHitTime scenario_cfg))
     + unat (memspeed scenario_cfg)"
    by (rule mp [OF S [THEN conjunct2, THEN conjunct2, THEN conjunct2, THEN conjunct2,
        THEN conjunct2, THEN conjunct2, THEN conjunct2, THEN conjunct2, THEN conjunct2,
        THEN conjunct2, THEN conjunct1] s6])
  show ?thesis
    using m1 m2 m3 m4 m5 m6 m7 m8 m9 m10 m11 s1 s2 s3 s4 s5 s6 s7 by (intro conjI)
qed

subsection \<open>Addresses of one block\<close>

lemma log2_u32_pow2: "log2_u32 (2 ^ k) = k"
proof (induction k)
  case 0
  show ?case by (simp add: log2_u32.simps)
next
  case (Suc k)
  have "\<not> (2::nat) ^ Suc k < 2" by simp
  then have "log2_u32 (2 ^ Suc k) = Suc (log2_u32 (2 ^ Suc k div 2))"
    by (subst log2_u32.simps) simp
  with Suc show ?case by simp
qed

lemma same_block_drop_bit:
  fixes a b :: u32
  assumes "blocksize cfg = 2 ^ k" "k < 32"
    and "unat a div unat (blocksize cfg) = unat b div unat (blocksize cfg)"
  shows "drop_bit (log2_u32 (unat (blocksize cfg))) a = drop_bit (log2_u32 (unat (blocksize cfg))) b"
proof -
  have "(2::u32) ^ k = word_of_nat (2 ^ k)" by simp
  then have "unat ((2::u32) ^ k) = take_bit 32 ((2::nat) ^ k)"
    by (simp only: unsigned_of_nat) simp
  also have "\<dots> = 2 ^ k" using assms(2) by (simp add: take_bit_nat_eq_self)
  finally have u: "unat (blocksize cfg) = 2 ^ k" using assms(1) by simp
  have "unat (drop_bit k a) = unat (drop_bit k b)"
    using assms(3) unfolding u
    by (simp only: unat_drop_bit_eq) (simp only: drop_bit_eq_div)
  then have "drop_bit k a = drop_bit k b"
    by (simp add: word_unat_eq_iff)
  then show ?thesis by (simp add: u log2_u32_pow2)
qed

lemma set_index_block:
  assumes "drop_bit (log2_u32 (unat bsize)) a = drop_bit (log2_u32 (unat bsize)) b"
  shows "set_index bsize sets a = set_index bsize sets b"
  unfolding set_index_def assms ..

lemma stored_tag_block:
  assumes "drop_bit (log2_u32 (unat bsize)) a = drop_bit (log2_u32 (unat bsize)) b"
  shows "stored_tag bsize sets a = stored_tag bsize sets b"
  unfolding stored_tag_def assms ..

lemma l2cache_access_block:
  assumes "drop_bit (log2_u32 (unat (blocksize cfg))) a = drop_bit (log2_u32 (unat (blocksize cfg))) b"
  shows "l2cache_access cfg a s = l2cache_access cfg b s"
  unfolding l2cache_access_eq l2_lookup_def l2_touch_def l2_fill_def
    set_index_block [OF assms] stored_tag_block [OF assms] ..

lemma icache_access_block:
  assumes "drop_bit (log2_u32 (unat (blocksize cfg))) a = drop_bit (log2_u32 (unat (blocksize cfg))) b"
  shows "icache_access cfg a s = icache_access cfg b s"
proof -
  have l2: "l2cache_access cfg a = l2cache_access cfg b"
    using l2cache_access_block [OF assms] by (intro ext)
  show ?thesis
    unfolding icache_access_eq icache_lookup_def icache_touch_def icache_fill_def
      set_index_block [OF assms] stored_tag_block [OF assms] l2 ..
qed

lemma dcache_access_block:
  assumes "drop_bit (log2_u32 (unat (blocksize cfg))) a = drop_bit (log2_u32 (unat (blocksize cfg))) b"
  shows "dcache_access cfg a s = dcache_access cfg b s"
proof -
  have l2: "l2cache_access cfg a = l2cache_access cfg b"
    using l2cache_access_block [OF assms] by (intro ext)
  show ?thesis
    unfolding dcache_access_eq dcache_lookup_def dcache_touch_def dcache_fill_def
      set_index_block [OF assms] stored_tag_block [OF assms] l2 ..
qed

text \<open>
  C10. For a block size that is a power of two, two addresses of the same block (equal
  after division by the block size) give the same result at each entry point: the same
  latency and the same state after the access, or the same fault.
\<close>

theorem same_block_same_access:
  assumes "blocksize cfg = 2 ^ k" and "k < 32"
    and "unat a div unat (blocksize cfg) = unat b div unat (blocksize cfg)"
  shows "icache_access cfg a s = icache_access cfg b s \<and>
         dcache_access cfg a s = dcache_access cfg b s \<and>
         l2cache_access cfg a s = l2cache_access cfg b s"
proof -
  note d = same_block_drop_bit [OF assms]
  show ?thesis
    using icache_access_block [OF d] dcache_access_block [OF d] l2cache_access_block [OF d]
    by (intro conjI)
qed

theorem same_block_same_access_witness:
  "blocksize sentinel_cfg = 2 ^ 2 \<and> (2::nat) < 32 \<and>
   unat (4 :: u32) div unat (blocksize sentinel_cfg) = unat (7 :: u32) div unat (blocksize sentinel_cfg) \<and>
   icache_access sentinel_cfg 4 sentinel_state = icache_access sentinel_cfg 7 sentinel_state \<and>
   dcache_access sentinel_cfg 4 sentinel_state = dcache_access sentinel_cfg 7 sentinel_state \<and>
   l2cache_access sentinel_cfg 4 sentinel_state = l2cache_access sentinel_cfg 7 sentinel_state"
proof -
  have h1: "blocksize sentinel_cfg = 2 ^ 2" by (simp add: sentinel_cfg_def)
  have h2: "(2::nat) < 32" by simp
  have h3: "unat (4 :: u32) div unat (blocksize sentinel_cfg)
      = unat (7 :: u32) div unat (blocksize sentinel_cfg)"
    by (simp add: sentinel_cfg_def)
  note T = same_block_same_access [OF h1 h2 h3, of sentinel_state]
  show ?thesis
    using h1 h2 h3 T [THEN conjunct1] T [THEN conjunct2, THEN conjunct1]
      T [THEN conjunct2, THEN conjunct2]
    by (intro conjI)
qed

subsection \<open>Determinism of a run\<close>

lemma agree_refl: "agree s s"
  by (simp add: agree_def)

lemma agree_init: "agree (init_cache cfg s1) (init_cache cfg s2)"
  by (simp add: agree_def init_cache_def)

lemma agree_stale:
  "\<not> l2_did_evict s \<Longrightarrow> agree s (s\<lparr>l2_evicted_addr := a\<rparr>)"
  by (simp add: agree_def)

lemma agreeE:
  assumes "agree s t"
  obtains (same) "t = s" | (stale) a where "\<not> l2_did_evict s" "t = s\<lparr>l2_evicted_addr := a\<rparr>"
  using assms unfolding agree_def by blast

lemma l2_lookup_stale [simp]:
  "l2_lookup cfg addr (s\<lparr>l2_evicted_addr := a\<rparr>) = l2_lookup cfg addr s"
  by (simp add: l2_lookup_def)

lemma l2_touch_stale:
  "l2_touch cfg addr i (s\<lparr>l2_evicted_addr := a\<rparr>) = (l2_touch cfg addr i s)\<lparr>l2_evicted_addr := a\<rparr>"
  by (simp add: l2_touch_def Let_def)

lemma l2_touch_did_evict [simp]: "\<not> l2_did_evict (l2_touch cfg addr i s)"
  by (simp add: l2_touch_def Let_def)

lemma l2_fill_stale:
  "l2_fill cfg addr (s\<lparr>l2_evicted_addr := a\<rparr>) =
     (if l2_did_evict (l2_fill cfg addr s) then l2_fill cfg addr s
      else (l2_fill cfg addr s)\<lparr>l2_evicted_addr := a\<rparr>)"
  by (simp add: l2_fill_def Let_def split: prod.splits)

lemma agree_result_refl: "agree_result r r"
  by (simp add: agree_result_def agree_refl split: sum.splits)

lemma l2cache_access_stale:
  "agree_result (l2cache_access cfg addr s) (l2cache_access cfg addr (s\<lparr>l2_evicted_addr := a\<rparr>))"
proof -
  consider (bypass) "l2cacheSets cfg = 0"
    | (fault1) "l2cacheSets cfg \<noteq> 0" "blocksize cfg = 0"
    | (hit) i where "l2cacheSets cfg \<noteq> 0" "blocksize cfg \<noteq> 0" "l2_lookup cfg addr s = Some i"
    | (fault2) "l2cacheSets cfg \<noteq> 0" "blocksize cfg \<noteq> 0" "l2_lookup cfg addr s = None"
        "l2cacheAssoc cfg = 0"
    | (miss) "l2cacheSets cfg \<noteq> 0" "blocksize cfg \<noteq> 0" "l2_lookup cfg addr s = None"
        "l2cacheAssoc cfg \<noteq> 0"
    by (cases "l2_lookup cfg addr s") auto
  then show ?thesis
  proof cases
    case bypass
    then show ?thesis by (simp add: l2cache_access_eq agree_result_def agree_def)
  next
    case fault1
    then show ?thesis by (simp add: l2cache_access_eq agree_result_def)
  next
    case hit
    then show ?thesis
      by (simp add: l2cache_access_eq agree_result_def l2_touch_stale agree_stale)
  next
    case fault2
    then show ?thesis by (simp add: l2cache_access_eq agree_result_def)
  next
    case miss
    then show ?thesis
      by (simp add: l2cache_access_eq agree_result_def l2_fill_stale agree_stale agree_refl)
  qed
qed

lemma l2cache_access_agree:
  assumes "agree s t"
  shows "agree_result (l2cache_access cfg addr s) (l2cache_access cfg addr t)"
  using assms
proof (cases rule: agreeE)
  case same
  then show ?thesis by (simp add: agree_result_refl)
next
  case (stale a)
  then show ?thesis by (simp add: l2cache_access_stale)
qed

lemma icache_lookup_stale [simp]:
  "icache_lookup cfg addr (s\<lparr>l2_evicted_addr := a\<rparr>) = icache_lookup cfg addr s"
  by (simp add: icache_lookup_def)

lemma dcache_lookup_stale [simp]:
  "dcache_lookup cfg addr (s\<lparr>l2_evicted_addr := a\<rparr>) = dcache_lookup cfg addr s"
  by (simp add: dcache_lookup_def)

lemma icache_touch_stale:
  "icache_touch cfg addr i (s\<lparr>l2_evicted_addr := a\<rparr>) =
     (icache_touch cfg addr i s)\<lparr>l2_evicted_addr := a\<rparr>"
  "l2_did_evict (icache_touch cfg addr i s) = l2_did_evict s"
  by (simp_all add: icache_touch_def Let_def)

lemma dcache_touch_stale:
  "dcache_touch cfg addr i (s\<lparr>l2_evicted_addr := a\<rparr>) =
     (dcache_touch cfg addr i s)\<lparr>l2_evicted_addr := a\<rparr>"
  "l2_did_evict (dcache_touch cfg addr i s) = l2_did_evict s"
  by (simp_all add: dcache_touch_def Let_def)

lemma icache_fill_stale:
  "icache_fill cfg addr (s\<lparr>l2_evicted_addr := a\<rparr>) =
     (icache_fill cfg addr s)\<lparr>l2_evicted_addr := a\<rparr>"
  by (simp add: icache_fill_def Let_def split: prod.splits)

lemma dcache_fill_stale:
  "dcache_fill cfg addr (s\<lparr>l2_evicted_addr := a\<rparr>) =
     (dcache_fill cfg addr s)\<lparr>l2_evicted_addr := a\<rparr>"
  by (simp add: dcache_fill_def Let_def split: prod.splits)

lemma icache_finish_agree:
  assumes "agree s t"
  shows "agree ((icache_inclusion cfg s)\<lparr>icachePenalties := icachePenalties s + p\<rparr>)
               ((icache_inclusion cfg t)\<lparr>icachePenalties := icachePenalties t + p\<rparr>)"
  using assms
proof (cases rule: agreeE)
  case same
  then show ?thesis by (simp add: agree_refl)
next
  case (stale a)
  then show ?thesis by (simp add: icache_inclusion_def agree_def)
qed

lemma dcache_finish_agree:
  assumes "agree s t"
  shows "agree ((dcache_inclusion cfg s)\<lparr>dcachePenalties := dcachePenalties s + p\<rparr>)
               ((dcache_inclusion cfg t)\<lparr>dcachePenalties := dcachePenalties t + p\<rparr>)"
  using assms
proof (cases rule: agreeE)
  case same
  then show ?thesis by (simp add: agree_refl)
next
  case (stale a)
  then show ?thesis by (simp add: dcache_inclusion_def agree_def)
qed

lemma icache_tail_agree:
  assumes "agree_result r r'"
  shows "agree_result
     (case r of Inl e \<Rightarrow> Inl e
      | Inr (l2_time, s4) \<Rightarrow>
          Inr (h + l2_time,
               (icache_inclusion cfg s4)\<lparr>icachePenalties := icachePenalties s4 + ucast l2_time\<rparr>))
     (case r' of Inl e \<Rightarrow> Inl e
      | Inr (l2_time, s4) \<Rightarrow>
          Inr (h + l2_time,
               (icache_inclusion cfg s4)\<lparr>icachePenalties := icachePenalties s4 + ucast l2_time\<rparr>))"
  using assms
  by (auto simp: agree_result_def icache_finish_agree split: sum.splits)

lemma dcache_tail_agree:
  assumes "agree_result r r'"
  shows "agree_result
     (case r of Inl e \<Rightarrow> Inl e
      | Inr (l2_time, s4) \<Rightarrow>
          Inr (h + l2_time,
               (dcache_inclusion cfg s4)\<lparr>dcachePenalties := dcachePenalties s4 + ucast l2_time\<rparr>))
     (case r' of Inl e \<Rightarrow> Inl e
      | Inr (l2_time, s4) \<Rightarrow>
          Inr (h + l2_time,
               (dcache_inclusion cfg s4)\<lparr>dcachePenalties := dcachePenalties s4 + ucast l2_time\<rparr>))"
  using assms
  by (auto simp: agree_result_def dcache_finish_agree split: sum.splits)

lemma icache_access_stale:
  assumes "\<not> l2_did_evict s"
  shows "agree_result (icache_access cfg addr s) (icache_access cfg addr (s\<lparr>l2_evicted_addr := a\<rparr>))"
proof (cases "icacheSets cfg = 0")
  case True
  then show ?thesis by (simp add: icache_access_eq l2cache_access_stale)
next
  case sets: False
  show ?thesis
  proof (cases "blocksize cfg = 0")
    case True
    with sets show ?thesis by (simp add: icache_access_eq agree_result_def)
  next
    case bs: False
    show ?thesis
    proof (cases "icache_lookup cfg addr s")
      case (Some i)
      with sets bs assms show ?thesis
        by (simp add: icache_access_eq agree_result_def icache_touch_stale agree_stale)
    next
      case None
      show ?thesis
      proof (cases "icacheAssoc cfg = 0")
        case True
        with sets bs None show ?thesis by (simp add: icache_access_eq agree_result_def)
      next
        case False
        have "agree_result (l2cache_access cfg addr (icache_fill cfg addr s))
            (l2cache_access cfg addr ((icache_fill cfg addr s)\<lparr>l2_evicted_addr := a\<rparr>))"
          by (rule l2cache_access_stale)
        from icache_tail_agree [OF this] sets bs None False show ?thesis
          by (simp add: icache_access_eq icache_fill_stale)
      qed
    qed
  qed
qed

lemma dcache_access_stale:
  assumes "\<not> l2_did_evict s"
  shows "agree_result (dcache_access cfg addr s) (dcache_access cfg addr (s\<lparr>l2_evicted_addr := a\<rparr>))"
proof (cases "dcacheSets cfg = 0")
  case True
  then show ?thesis by (simp add: dcache_access_eq l2cache_access_stale)
next
  case sets: False
  show ?thesis
  proof (cases "blocksize cfg = 0")
    case True
    with sets show ?thesis by (simp add: dcache_access_eq agree_result_def)
  next
    case bs: False
    show ?thesis
    proof (cases "dcache_lookup cfg addr s")
      case (Some i)
      with sets bs assms show ?thesis
        by (simp add: dcache_access_eq agree_result_def dcache_touch_stale agree_stale)
    next
      case None
      show ?thesis
      proof (cases "dcacheAssoc cfg = 0")
        case True
        with sets bs None show ?thesis by (simp add: dcache_access_eq agree_result_def)
      next
        case False
        have "agree_result (l2cache_access cfg addr (dcache_fill cfg addr s))
            (l2cache_access cfg addr ((dcache_fill cfg addr s)\<lparr>l2_evicted_addr := a\<rparr>))"
          by (rule l2cache_access_stale)
        from dcache_tail_agree [OF this] sets bs None False show ?thesis
          by (simp add: dcache_access_eq dcache_fill_stale)
      qed
    qed
  qed
qed

lemma step_agree:
  assumes "agree s t"
  shows "agree_result (step cfg x s) (step cfg x t)"
  using assms
proof (cases rule: agreeE)
  case same
  then show ?thesis by (simp add: agree_result_refl)
next
  case (stale a)
  then show ?thesis
    by (cases x) (simp_all add: icache_access_stale dcache_access_stale)
qed

lemma statistics_agree: "agree s t \<Longrightarrow> statistics t = statistics s"
  by (erule agreeE) (simp_all add: statistics_def)

lemma run_agree:
  "agree s t \<Longrightarrow> observed (run cfg xs s) = observed (run cfg xs t)"
proof (induction xs arbitrary: s t)
  case Nil
  then show ?case by (simp add: observed_def statistics_agree)
next
  case (Cons x xs)
  note sa = step_agree [OF Cons.prems, of cfg x]
  show ?case
  proof (cases "step cfg x s")
    case (Inl e)
    with sa have "step cfg x t = Inl e" by (simp add: agree_result_def)
    with Inl show ?thesis by (simp add: observed_def)
  next
    case (Inr r)
    obtain l s' where r: "r = (l, s')" by (cases r)
    from sa Inr r obtain t' where t: "step cfg x t = Inr (l, t')" and a: "agree s' t'"
      by (cases "step cfg x t") (auto simp: agree_result_def)
    from Cons.IH [OF a] Inr r t show ?thesis
      by (auto simp: observed_def split: sum.splits)
  qed
qed

text \<open>
  C8. For a fixed configuration and access sequence, two runs that each start from a
  freshly initialised hierarchy give the same latencies, access by access, and the same
  final reference, miss and penalty counters at all three levels (or stop with the same
  fault), whatever the variables held before \<^verbatim>\<open>init_cache\<close>, including
  \<^verbatim>\<open>l2_evicted_addr\<close>, which \<^verbatim>\<open>init_cache\<close> does not reset.
\<close>

theorem run_deterministic:
  "observed (run cfg xs (init_cache cfg s1)) = observed (run cfg xs (init_cache cfg s2))"
  by (rule run_agree) (rule agree_init)

subsection \<open>Capacity and distinct tags\<close>

lemma valid_stored_tag: "valid_tag (stored_tag bsize sets addr)"
proof -
  have "(x OR 0x80000000) AND 0x80000000 = (0x80000000 :: u32)" for x :: u32
    by (simp add: word_ao_absorbs)
  then show ?thesis by (simp add: valid_tag_def stored_tag_def)
qed

lemma invalid_zero: "\<not> valid_tag 0"
  by (simp add: valid_tag_def)

lemma distinct_filter_update_new:
  "x \<notin> set xs \<Longrightarrow> distinct (filter P xs) \<Longrightarrow> distinct (filter P (xs[i := x]))"
proof (induction xs arbitrary: i)
  case Nil
  then show ?case by simp
next
  case (Cons y ys)
  show ?case
  proof (cases i)
    case 0
    with Cons.prems show ?thesis by (auto split: if_splits)
  next
    case (Suc j)
    have "set (ys[j := x]) \<subseteq> insert x (set ys)" by (rule set_update_subset_insert)
    with Cons Suc show ?thesis by (auto split: if_splits)
  qed
qed

lemma distinct_filter_update_out:
  "\<not> P x \<Longrightarrow> distinct (filter P xs) \<Longrightarrow> distinct (filter P (xs[i := x]))"
proof (induction xs arbitrary: i)
  case Nil
  then show ?case by simp
next
  case (Cons y ys)
  show ?case
  proof (cases i)
    case 0
    with Cons.prems show ?thesis by (auto split: if_splits)
  next
    case (Suc j)
    have "set (ys[j := x]) \<subseteq> insert x (set ys)" by (rule set_update_subset_insert)
    with Cons Suc show ?thesis by (auto split: if_splits)
  qed
qed

lemma list_all_update:
  assumes "list_all P xs" and "i < length xs \<Longrightarrow> P y"
  shows "list_all P (xs[i := y])"
proof (cases "i < length xs")
  case True
  have "set (xs[i := y]) \<subseteq> insert y (set xs)" by (rule set_update_subset_insert)
  with assms True show ?thesis by (auto simp: list_all_iff)
next
  case False
  then have "length xs \<le> i" by simp
  then have "xs[i := y] = xs" by (rule list_update_beyond)
  with assms(1) show ?thesis by simp
qed

lemma list_all_nth: "list_all P xs \<Longrightarrow> i < length xs \<Longrightarrow> P (xs ! i)"
  by (simp add: list_all_length)

lemma set_ok_fill:
  assumes "set_ok n row" and "find_way n row (stored_tag bsize sets addr) = None"
  shows "set_ok n (row[v := stored_tag bsize sets addr])"
proof -
  from assms have "stored_tag bsize sets addr \<notin> set row"
    by (simp add: set_ok_def find_way_None_set)
  with assms(1) show ?thesis
    by (simp add: set_ok_def distinct_filter_update_new)
qed

lemma length_l1_scan: "n \<le> length l \<Longrightarrow> length (snd (snd (l1_scan n l))) = length l"
  by (simp add: l1_scan_eq)

lemma length_l2_scan: "n \<le> length l \<Longrightarrow> length (snd (snd (l2_scan n l))) = length l"
  by (simp add: l2_scan_eq)

lemma l1_evict_Suc:
  "l1_evict (Suc n) et p =
     (case l1_evict n et p of
        (set_to_check, l) \<Rightarrow>
          if set_to_check ! n = et then (set_to_check[n := 0], l[n := UINT32_MAX])
          else (set_to_check, l))"
  by (simp add: l1_evict_def)

lemma l1_evict_ok:
  "length (fst (l1_evict n et (tags, lru))) = length tags \<and>
   length (snd (l1_evict n et (tags, lru))) = length lru \<and>
   (distinct (filter valid_tag tags) \<longrightarrow>
      distinct (filter valid_tag (fst (l1_evict n et (tags, lru)))))"
proof (induction n)
  case 0
  show ?case by (simp add: l1_evict_def)
next
  case (Suc n)
  then show ?case
    by (auto simp: l1_evict_Suc distinct_filter_update_out invalid_zero split: prod.splits)
qed

lemma level_ok_row:
  assumes "level_ok sets assoc ts ls" "i < length ts"
  shows "set_ok (unat assoc) (ts ! i)" "length (ls ! i) = unat assoc"
  using assms by (simp_all add: level_ok_def list_all_length)

lemma level_ok_update:
  assumes "level_ok sets assoc ts ls"
    and "i < length ts \<Longrightarrow> set_ok (unat assoc) row"
    and "i < length ts \<Longrightarrow> length lrow = unat assoc"
  shows "level_ok sets assoc (ts[i := row]) (ls[i := lrow])"
  using assms by (simp add: level_ok_def list_all_update)

lemma level_ok_touch:
  assumes "level_ok sets assoc ts ls" and "length lrow = length (ls ! i)"
  shows "level_ok sets assoc ts (ls[i := lrow])"
proof -
  have "level_ok sets assoc (ts[i := ts ! i]) (ls[i := lrow])"
    using assms by (intro level_ok_update) (simp_all add: level_ok_row)
  then show ?thesis by simp
qed

lemma level_ok_init:
  "level_ok sets assoc (replicate (unat sets) (replicate (unat assoc) 0))
     (replicate (unat sets) (replicate (unat assoc) 0))"
  by (simp add: level_ok_def set_ok_def list_all_iff invalid_zero)

lemma hierarchy_ok_init: "hierarchy_ok cfg (init_cache cfg s0)"
  by (simp add: hierarchy_ok_def init_cache_def level_ok_init)

lemma hierarchy_ok_l2_touch:
  assumes "hierarchy_ok cfg s"
  shows "hierarchy_ok cfg (l2_touch cfg addr i s)"
  using assms by (simp add: hierarchy_ok_def l2_touch_def Let_def level_ok_touch)

lemma hierarchy_ok_icache_touch:
  assumes "hierarchy_ok cfg s"
  shows "hierarchy_ok cfg (icache_touch cfg addr i s)"
  using assms by (simp add: hierarchy_ok_def icache_touch_def Let_def level_ok_touch)

lemma hierarchy_ok_dcache_touch:
  assumes "hierarchy_ok cfg s"
  shows "hierarchy_ok cfg (dcache_touch cfg addr i s)"
  using assms by (simp add: hierarchy_ok_def dcache_touch_def Let_def level_ok_touch)

lemma level_ok_fill:
  assumes ok: "level_ok sets assoc ts ls"
    and miss: "find_way (unat assoc) (ts ! i) (stored_tag bsize sets addr) = None"
    and aged: "i < length ts \<Longrightarrow> length aged = unat assoc"
  shows "level_ok sets assoc
     (ts[i := (ts ! i)[v := stored_tag bsize sets addr]]) (ls[i := aged[w := 0]])"
proof (rule level_ok_update [OF ok])
  assume "i < length ts"
  with ok have "set_ok (unat assoc) (ts ! i)" by (rule level_ok_row)
  then show "set_ok (unat assoc) ((ts ! i)[v := stored_tag bsize sets addr])"
    using miss by (rule set_ok_fill)
next
  assume "i < length ts"
  then show "length (aged[w := 0]) = unat assoc" by (simp add: aged)
qed

lemma hierarchy_ok_l2_fill:
  assumes "hierarchy_ok cfg s" and "l2_lookup cfg addr s = None"
  shows "hierarchy_ok cfg (l2_fill cfg addr s)"
proof -
  let ?i = "set_index (blocksize cfg) (l2cacheSets cfg) addr"
  from assms(1) have ok: "level_ok (l2cacheSets cfg) (l2cacheAssoc cfg) (l2_tag_storage s) (l2_lru_storage s)"
    by (simp add: hierarchy_ok_def)
  have len: "length (l2_tag_storage s) = length (l2_lru_storage s)"
    using ok by (simp add: level_ok_def)
  have aged: "?i < length (l2_tag_storage s) \<Longrightarrow>
      length (snd (snd (l2_scan (unat (l2cacheAssoc cfg)) (l2_lru_storage s ! ?i)))) = unat (l2cacheAssoc cfg)"
    using level_ok_row(2) [OF ok, of ?i] by (simp add: length_l2_scan)
  have "level_ok (l2cacheSets cfg) (l2cacheAssoc cfg)
     ((l2_tag_storage s)[?i := (l2_tag_storage s ! ?i)
        [fst (snd (l2_scan (unat (l2cacheAssoc cfg)) (l2_lru_storage s ! ?i))) :=
           stored_tag (blocksize cfg) (l2cacheSets cfg) addr]])
     ((l2_lru_storage s)[?i := (snd (snd (l2_scan (unat (l2cacheAssoc cfg)) (l2_lru_storage s ! ?i))))
        [fst (snd (l2_scan (unat (l2cacheAssoc cfg)) (l2_lru_storage s ! ?i))) := 0]])"
    using assms(2) aged by (intro level_ok_fill [OF ok]) (simp_all add: l2_lookup_def)
  then show ?thesis
    using assms(1) by (simp add: hierarchy_ok_def l2_fill_def Let_def case_prod_beta)
qed

lemma hierarchy_ok_icache_fill:
  assumes "hierarchy_ok cfg s" and "icache_lookup cfg addr s = None"
  shows "hierarchy_ok cfg (icache_fill cfg addr s)"
proof -
  let ?i = "set_index (blocksize cfg) (icacheSets cfg) addr"
  from assms(1) have ok: "level_ok (icacheSets cfg) (icacheAssoc cfg) (l1i_tag_storage s) (l1i_lru_storage s)"
    by (simp add: hierarchy_ok_def)
  have aged: "?i < length (l1i_tag_storage s) \<Longrightarrow>
      length (snd (snd (l1_scan (unat (icacheAssoc cfg)) (l1i_lru_storage s ! ?i)))) = unat (icacheAssoc cfg)"
    using level_ok_row(2) [OF ok, of ?i] by (simp add: length_l1_scan)
  have "level_ok (icacheSets cfg) (icacheAssoc cfg)
     ((l1i_tag_storage s)[?i := (l1i_tag_storage s ! ?i)
        [fst (snd (l1_scan (unat (icacheAssoc cfg)) (l1i_lru_storage s ! ?i))) :=
           stored_tag (blocksize cfg) (icacheSets cfg) addr]])
     ((l1i_lru_storage s)[?i := (snd (snd (l1_scan (unat (icacheAssoc cfg)) (l1i_lru_storage s ! ?i))))
        [fst (snd (l1_scan (unat (icacheAssoc cfg)) (l1i_lru_storage s ! ?i))) := 0]])"
    using assms(2) aged by (intro level_ok_fill [OF ok]) (simp_all add: icache_lookup_def)
  then show ?thesis
    using assms(1) by (simp add: hierarchy_ok_def icache_fill_def Let_def case_prod_beta)
qed

lemma hierarchy_ok_dcache_fill:
  assumes "hierarchy_ok cfg s" and "dcache_lookup cfg addr s = None"
  shows "hierarchy_ok cfg (dcache_fill cfg addr s)"
proof -
  let ?i = "set_index (blocksize cfg) (dcacheSets cfg) addr"
  from assms(1) have ok: "level_ok (dcacheSets cfg) (dcacheAssoc cfg) (l1d_tag_storage s) (l1d_lru_storage s)"
    by (simp add: hierarchy_ok_def)
  have aged: "?i < length (l1d_tag_storage s) \<Longrightarrow>
      length (snd (snd (l1_scan (unat (dcacheAssoc cfg)) (l1d_lru_storage s ! ?i)))) = unat (dcacheAssoc cfg)"
    using level_ok_row(2) [OF ok, of ?i] by (simp add: length_l1_scan)
  have "level_ok (dcacheSets cfg) (dcacheAssoc cfg)
     ((l1d_tag_storage s)[?i := (l1d_tag_storage s ! ?i)
        [fst (snd (l1_scan (unat (dcacheAssoc cfg)) (l1d_lru_storage s ! ?i))) :=
           stored_tag (blocksize cfg) (dcacheSets cfg) addr]])
     ((l1d_lru_storage s)[?i := (snd (snd (l1_scan (unat (dcacheAssoc cfg)) (l1d_lru_storage s ! ?i))))
        [fst (snd (l1_scan (unat (dcacheAssoc cfg)) (l1d_lru_storage s ! ?i))) := 0]])"
    using assms(2) aged by (intro level_ok_fill [OF ok]) (simp_all add: dcache_lookup_def)
  then show ?thesis
    using assms(1) by (simp add: hierarchy_ok_def dcache_fill_def Let_def case_prod_beta)
qed

lemma level_ok_evict:
  assumes ok: "level_ok sets assoc ts ls"
  shows "level_ok sets assoc (ts[i := fst (l1_evict n et (ts ! i, ls ! i))])
     (ls[i := snd (l1_evict n et (ts ! i, ls ! i))])"
proof (rule level_ok_update [OF ok])
  assume i: "i < length ts"
  note row = level_ok_row [OF ok i]
  note ev = l1_evict_ok [of n et "ts ! i" "ls ! i"]
  from row ev show "set_ok (unat assoc) (fst (l1_evict n et (ts ! i, ls ! i)))"
    by (simp add: set_ok_def)
  from row ev show "length (snd (l1_evict n et (ts ! i, ls ! i))) = unat assoc"
    by simp
qed

lemma hierarchy_ok_icache_inclusion:
  assumes "hierarchy_ok cfg s"
  shows "hierarchy_ok cfg (icache_inclusion cfg s)"
  using assms
  by (simp add: hierarchy_ok_def icache_inclusion_def Let_def case_prod_beta level_ok_evict)

lemma hierarchy_ok_dcache_inclusion:
  assumes "hierarchy_ok cfg s"
  shows "hierarchy_ok cfg (dcache_inclusion cfg s)"
  using assms
  by (simp add: hierarchy_ok_def dcache_inclusion_def Let_def case_prod_beta level_ok_evict)

lemma hierarchy_ok_counters [simp]:
  "hierarchy_ok cfg (s\<lparr>icachePenalties := p\<rparr>) = hierarchy_ok cfg s"
  "hierarchy_ok cfg (s\<lparr>dcachePenalties := p\<rparr>) = hierarchy_ok cfg s"
  "hierarchy_ok cfg (s\<lparr>l2_did_evict := b\<rparr>) = hierarchy_ok cfg s"
  by (simp_all add: hierarchy_ok_def)

lemma hierarchy_ok_l2cache_access:
  assumes "hierarchy_ok cfg s" and "l2cache_access cfg addr s = Inr (t, s')"
  shows "hierarchy_ok cfg s'"
  using assms(2)
proof (cases rule: l2cache_access_cases)
  case bypass
  with assms(1) show ?thesis by simp
next
  case (hit i)
  with assms(1) show ?thesis by (simp add: hierarchy_ok_l2_touch)
next
  case miss
  with assms(1) show ?thesis by (simp add: hierarchy_ok_l2_fill)
qed

lemma hierarchy_ok_icache_access:
  assumes ok: "hierarchy_ok cfg s" and r: "icache_access cfg addr s = Inr (t, s')"
  shows "hierarchy_ok cfg s'"
proof (cases "icacheSets cfg = 0")
  case True
  with r have "l2cache_access cfg addr s = Inr (t, s')" by (simp add: icache_access_eq)
  with ok show ?thesis by (rule hierarchy_ok_l2cache_access)
next
  case False
  show ?thesis
  proof (cases "icache_lookup cfg addr s")
    case (Some i)
    from icache_access_hit [OF False Some r] ok show ?thesis
      by (simp add: hierarchy_ok_icache_touch)
  next
    case None
    from False None r obtain t2 s4
      where l2: "l2cache_access cfg addr (icache_fill cfg addr s) = Inr (t2, s4)"
        and s': "s' = (icache_inclusion cfg s4)\<lparr>icachePenalties := icachePenalties s4 + ucast t2\<rparr>"
      by (rule icache_access_miss)
    have "hierarchy_ok cfg (icache_fill cfg addr s)"
      using ok None by (rule hierarchy_ok_icache_fill)
    then have "hierarchy_ok cfg s4" using l2 by (rule hierarchy_ok_l2cache_access)
    then show ?thesis by (simp add: s' hierarchy_ok_icache_inclusion)
  qed
qed

lemma hierarchy_ok_dcache_access:
  assumes ok: "hierarchy_ok cfg s" and r: "dcache_access cfg addr s = Inr (t, s')"
  shows "hierarchy_ok cfg s'"
proof (cases "dcacheSets cfg = 0")
  case True
  with r have "l2cache_access cfg addr s = Inr (t, s')" by (simp add: dcache_access_eq)
  with ok show ?thesis by (rule hierarchy_ok_l2cache_access)
next
  case False
  show ?thesis
  proof (cases "dcache_lookup cfg addr s")
    case (Some i)
    from dcache_access_hit [OF False Some r] ok show ?thesis
      by (simp add: hierarchy_ok_dcache_touch)
  next
    case None
    from False None r obtain t2 s4
      where l2: "l2cache_access cfg addr (dcache_fill cfg addr s) = Inr (t2, s4)"
        and s': "s' = (dcache_inclusion cfg s4)\<lparr>dcachePenalties := dcachePenalties s4 + ucast t2\<rparr>"
      by (rule dcache_access_miss)
    have "hierarchy_ok cfg (dcache_fill cfg addr s)"
      using ok None by (rule hierarchy_ok_dcache_fill)
    then have "hierarchy_ok cfg s4" using l2 by (rule hierarchy_ok_l2cache_access)
    then show ?thesis by (simp add: s' hierarchy_ok_dcache_inclusion)
  qed
qed

lemma reachable_ok: "reachable cfg s \<Longrightarrow> hierarchy_ok cfg s"
proof (induction rule: reachable.induct)
  case (init s0)
  show ?case by (rule hierarchy_ok_init)
next
  case (instruction s addr t s')
  then show ?case by (blast intro: hierarchy_ok_icache_access)
next
  case (data s addr t s')
  then show ?case by (blast intro: hierarchy_ok_dcache_access)
next
  case (l2 s addr t s')
  then show ?case by (blast intro: hierarchy_ok_l2cache_access)
qed

lemma level_ok_capacity:
  assumes "level_ok sets assoc ts ls" and "row \<in> set ts"
  shows "length (filter valid_tag row) \<le> unat assoc \<and> distinct (filter valid_tag row)"
proof -
  from assms have "set_ok (unat assoc) row" by (simp add: level_ok_def list_all_iff)
  then have "length row = unat assoc" "distinct (filter valid_tag row)"
    by (simp_all add: set_ok_def)
  moreover have "length (filter valid_tag row) \<le> length row" by (rule length_filter_le)
  ultimately show ?thesis by simp
qed

text \<open>The set index an access computes is always a row of its level's arrays.\<close>

lemma set_index_in_range:
  assumes "sets \<noteq> 0"
  shows "set_index bsize sets addr < unat sets"
proof -
  have "unat (drop_bit (log2_u32 (unat bsize)) addr AND (sets - 1)) \<le> unat (sets - 1)"
    by (rule word_and_le1 [THEN word_le_nat_alt [THEN iffD1]])
  moreover have "unat (sets - 1) = unat sets - 1"
    using assms by (rule unat_minus_one)
  moreover have "0 < unat sets"
    using assms by (simp add: unat_gt_0)
  ultimately show ?thesis by (simp add: set_index_def)
qed

text \<open>
  C7. The freshly initialised hierarchy is well formed, every instruction access, data
  access and L2 access that returns keeps it well formed, so every reachable state is; and
  in a well-formed hierarchy every set of every level holds at most \<open>associativity\<close>
  valid tags, no two of them equal.
\<close>

theorem capacity_and_distinct_tags:
  "hierarchy_ok cfg (init_cache cfg s0) \<and>
   (hierarchy_ok cfg s \<longrightarrow> icache_access cfg addr s = Inr (t, s') \<longrightarrow> hierarchy_ok cfg s') \<and>
   (hierarchy_ok cfg s \<longrightarrow> dcache_access cfg addr s = Inr (t, s') \<longrightarrow> hierarchy_ok cfg s') \<and>
   (hierarchy_ok cfg s \<longrightarrow> l2cache_access cfg addr s = Inr (t, s') \<longrightarrow> hierarchy_ok cfg s') \<and>
   (reachable cfg s \<longrightarrow> hierarchy_ok cfg s) \<and>
   (hierarchy_ok cfg s \<longrightarrow>
      (\<forall>row \<in> set (l1i_tag_storage s).
         length (filter valid_tag row) \<le> unat (icacheAssoc cfg) \<and>
         distinct (filter valid_tag row)) \<and>
      (\<forall>row \<in> set (l1d_tag_storage s).
         length (filter valid_tag row) \<le> unat (dcacheAssoc cfg) \<and>
         distinct (filter valid_tag row)) \<and>
      (\<forall>row \<in> set (l2_tag_storage s).
         length (filter valid_tag row) \<le> unat (l2cacheAssoc cfg) \<and>
         distinct (filter valid_tag row)))"
proof -
  have p6: "hierarchy_ok cfg s \<longrightarrow>
      (\<forall>row \<in> set (l1i_tag_storage s).
         length (filter valid_tag row) \<le> unat (icacheAssoc cfg) \<and>
         distinct (filter valid_tag row)) \<and>
      (\<forall>row \<in> set (l1d_tag_storage s).
         length (filter valid_tag row) \<le> unat (dcacheAssoc cfg) \<and>
         distinct (filter valid_tag row)) \<and>
      (\<forall>row \<in> set (l2_tag_storage s).
         length (filter valid_tag row) \<le> unat (l2cacheAssoc cfg) \<and>
         distinct (filter valid_tag row))"
    unfolding hierarchy_ok_def using level_ok_capacity by blast
  have p2: "hierarchy_ok cfg s \<longrightarrow> icache_access cfg addr s = Inr (t, s') \<longrightarrow> hierarchy_ok cfg s'"
    using hierarchy_ok_icache_access by blast
  have p3: "hierarchy_ok cfg s \<longrightarrow> dcache_access cfg addr s = Inr (t, s') \<longrightarrow> hierarchy_ok cfg s'"
    using hierarchy_ok_dcache_access by blast
  have p4: "hierarchy_ok cfg s \<longrightarrow> l2cache_access cfg addr s = Inr (t, s') \<longrightarrow> hierarchy_ok cfg s'"
    using hierarchy_ok_l2cache_access by blast
  have p5: "reachable cfg s \<longrightarrow> hierarchy_ok cfg s"
    using reachable_ok by blast
  show ?thesis
    using hierarchy_ok_init [of cfg s0] p2 p3 p4 p5 p6 by (intro conjI)
qed

theorem capacity_and_distinct_tags_witness:
  "hierarchy_ok scenario_cfg (init_cache scenario_cfg program_start) \<and>
   reachable scenario_cfg (init_cache scenario_cfg program_start) \<and>
   icache_access scenario_cfg 16 (init_cache scenario_cfg program_start) =
     Inr (55, l2_fill scenario_cfg 16 (init_cache scenario_cfg program_start)) \<and>
   l2cache_access scenario_cfg 16 (init_cache scenario_cfg program_start) =
     Inr (55, l2_fill scenario_cfg 16 (init_cache scenario_cfg program_start)) \<and>
   hierarchy_ok scenario_cfg (l2_fill scenario_cfg 16 (init_cache scenario_cfg program_start)) \<and>
   dcache_access scenario_cfg 16 (l2_fill scenario_cfg 16 (init_cache scenario_cfg program_start)) =
     Inr (6, dcache_inclusion scenario_cfg
               (l2_touch scenario_cfg 16 0
                  (dcache_fill scenario_cfg 16
                     (l2_fill scenario_cfg 16 (init_cache scenario_cfg program_start))))
             \<lparr>dcachePenalties := 5\<rparr>) \<and>
   hierarchy_ok scenario_cfg
     (dcache_inclusion scenario_cfg
        (l2_touch scenario_cfg 16 0
           (dcache_fill scenario_cfg 16
              (l2_fill scenario_cfg 16 (init_cache scenario_cfg program_start))))
      \<lparr>dcachePenalties := 5\<rparr>) \<and>
   l2_tag_storage (l2_fill scenario_cfg 16 (init_cache scenario_cfg program_start))
     = [[0x80000002], [0]] \<and>
   list_all
     (\<lambda>row. length (filter valid_tag row) \<le> unat (l2cacheAssoc scenario_cfg) \<and>
        distinct (filter valid_tag row))
     (l2_tag_storage (l2_fill scenario_cfg 16 (init_cache scenario_cfg program_start)))"
proof -
  let ?s0 = "init_cache scenario_cfg program_start"
  let ?s1 = "l2_fill scenario_cfg 16 ?s0"
  let ?s2 = "dcache_inclusion scenario_cfg
        (l2_touch scenario_cfg 16 0 (dcache_fill scenario_cfg 16 ?s1))\<lparr>dcachePenalties := 5\<rparr>"
  have ok0: "hierarchy_ok scenario_cfg ?s0"
    by (rule capacity_and_distinct_tags [THEN conjunct1])
  have r0: "reachable scenario_cfg ?s0" by (rule reachable.init)
  have i1: "icache_access scenario_cfg 16 ?s0 = Inr (55, ?s1)" by code_simp
  have l1: "l2cache_access scenario_cfg 16 ?s0 = Inr (55, ?s1)" by code_simp
  have ok1: "hierarchy_ok scenario_cfg ?s1"
    using capacity_and_distinct_tags [of scenario_cfg _ ?s0 16 55 ?s1] ok0 i1 by blast
  have d2: "dcache_access scenario_cfg 16 ?s1 = Inr (6, ?s2)" by code_simp
  have ok2: "hierarchy_ok scenario_cfg ?s2"
    using capacity_and_distinct_tags [of scenario_cfg _ ?s1 16 6 ?s2] ok1 d2 by blast
  have t1: "l2_tag_storage ?s1 = [[0x80000002], [0]]" by code_simp
  have "\<forall>row \<in> set (l2_tag_storage ?s1).
      length (filter valid_tag row) \<le> unat (l2cacheAssoc scenario_cfg) \<and>
      distinct (filter valid_tag row)"
    using capacity_and_distinct_tags [of scenario_cfg _ ?s1] ok1 by blast
  then have c1: "list_all
     (\<lambda>row. length (filter valid_tag row) \<le> unat (l2cacheAssoc scenario_cfg) \<and>
        distinct (filter valid_tag row))
     (l2_tag_storage ?s1)"
    by (simp only: list_all_iff)
  show ?thesis
    using ok0 r0 i1 l1 ok1 d2 ok2 t1 c1 by (intro conjI)
qed

subsection \<open>Least recently used replacement in one set\<close>

lemma scan_max_0: "scan_max 0 l = (0, 0)"
  by (simp add: scan_max_def)

lemma scan_max_Suc:
  "scan_max (Suc n) l =
     (if l ! n > fst (scan_max n l) then (l ! n, n) else scan_max n l)"
  by (simp add: scan_max_def case_prod_beta)

lemma scan_max_zero: "\<forall>j<n. l ! j = 0 \<Longrightarrow> scan_max n l = (0, 0)"
  by (induction n) (simp_all add: scan_max_0 scan_max_Suc)

lemma scan_max_value: "fst (scan_max n l) = 0 \<or> (\<exists>j<n. fst (scan_max n l) = l ! j)"
proof (induction n)
  case 0
  show ?case by (simp add: scan_max_0)
next
  case (Suc n)
  then show ?case by (auto simp: scan_max_Suc less_Suc_eq)
qed

lemma scan_max_first:
  assumes "i < n" "0 < l ! i" "\<forall>j<i. l ! j < l ! i" "\<forall>j<n. l ! j \<le> l ! i"
  shows "scan_max n l = (l ! i, i)"
  using assms
proof (induction n)
  case 0
  then show ?case by simp
next
  case (Suc n)
  show ?case
  proof (cases "i = n")
    case True
    have "fst (scan_max n l) < l ! n"
      using scan_max_value [of n l] Suc.prems True by auto
    then show ?thesis using True by (simp add: scan_max_Suc)
  next
    case False
    with Suc.prems have "i < n" by simp
    with Suc have eq: "scan_max n l = (l ! i, i)" by simp
    have "\<not> l ! n > l ! i" using Suc.prems(4) by (simp add: not_less)
    with eq show ?thesis by (simp add: scan_max_Suc)
  qed
qed

lemma victim_zero: "\<forall>j<n. l ! j = 0 \<Longrightarrow> victim n l = 0"
  by (simp add: victim_def scan_max_zero)

lemma victim_first:
  "i < n \<Longrightarrow> 0 < l ! i \<Longrightarrow> \<forall>j<i. l ! j < l ! i \<Longrightarrow> \<forall>j<n. l ! j \<le> l ! i \<Longrightarrow> victim n l = i"
  by (simp add: victim_def scan_max_first)

lemma u32_of_nat_less:
  "a < b \<Longrightarrow> b < 2 ^ 32 \<Longrightarrow> (word_of_nat a :: u32) < word_of_nat b"
  by (simp add: word_of_nat_less_iff take_bit_nat_eq_self)

lemma u32_of_nat_le:
  "a \<le> b \<Longrightarrow> b < 2 ^ 32 \<Longrightarrow> (word_of_nat a :: u32) \<le> word_of_nat b"
  by (simp add: word_of_nat_less_eq_iff take_bit_nat_eq_self)

lemma u32_of_nat_pos: "0 < b \<Longrightarrow> b < 2 ^ 32 \<Longrightarrow> (0 :: u32) < word_of_nat b"
  using u32_of_nat_less [of 0 b] by simp

lemma ages_plus: "ages (\<lambda>x. x + 1) n"
  by (simp add: ages_def)

lemma ages_age1: "n < 2 ^ 32 \<Longrightarrow> ages age1 n"
proof -
  assume n: "n < 2 ^ 32"
  have "(word_of_nat i :: u32) \<noteq> UINT32_MAX" if "i < n" for i
  proof -
    have "(word_of_nat i :: u32) < word_of_nat (2 ^ 32 - 1)"
      using that n by (intro u32_of_nat_less) simp_all
    then show ?thesis by (simp add: UINT32_MAX_def)
  qed
  then show ?thesis by (simp add: ages_def age1_def)
qed

lemma filled_lru_nth:
  "i < n \<Longrightarrow>
   filled_lru n j ! i = (if i < j then word_of_nat (j - 1 - i) else word_of_nat j)"
  unfolding filled_lru_def by (simp only: nth_map_upt add_0 minus_nat.diff_0)

lemma victim_filled:
  assumes "j < n" "n < 2 ^ 32"
  shows "victim n (filled_lru n j) = j"
proof (cases "j = 0")
  case True
  then show ?thesis by (simp add: victim_zero filled_lru_def)
next
  case False
  show ?thesis
  proof (rule victim_first)
    show "j < n" by fact
    show "0 < filled_lru n j ! j"
      using assms False by (simp add: filled_lru_def u32_of_nat_pos)
    have top: "filled_lru n j ! j = word_of_nat j"
      using assms by (simp add: filled_lru_def)
    show "\<forall>i<j. filled_lru n j ! i < filled_lru n j ! j"
    proof (intro allI impI)
      fix i assume i: "i < j"
      then have "filled_lru n j ! i = word_of_nat (j - 1 - i)"
        using assms by (simp only: filled_lru_nth) simp
      moreover have "(word_of_nat (j - 1 - i) :: u32) < word_of_nat j"
        using i assms by (intro u32_of_nat_less) simp_all
      ultimately show "filled_lru n j ! i < filled_lru n j ! j"
        by (simp only: top)
    qed
    show "\<forall>i<n. filled_lru n j ! i \<le> filled_lru n j ! j"
    proof (intro allI impI)
      fix i assume i: "i < n"
      have "filled_lru n j ! i = word_of_nat (j - 1 - i) \<or> filled_lru n j ! i = word_of_nat j"
        using i by (cases "i < j") (simp_all only: filled_lru_nth if_True if_False simp_thms)
      moreover have "(word_of_nat (j - 1 - i) :: u32) \<le> word_of_nat j"
        using assms by (intro u32_of_nat_le) simp_all
      ultimately show "filled_lru n j ! i \<le> filled_lru n j ! j"
        unfolding top by (elim disjE) (simp_all only: order_refl)
    qed
  qed
qed

lemma find_way_filled_miss:
  assumes "distinct xs" "j < length xs" "0 \<notin> set xs"
  shows "find_way n (filled_tags n xs j) (xs ! j) = None"
proof -
  have "filled_tags n xs j ! i \<noteq> xs ! j" if "i < n" for i
  proof (cases "i < j")
    case True
    with assms have "xs ! i \<noteq> xs ! j" by (simp add: nth_eq_iff_index_eq)
    with True that show ?thesis by (simp add: filled_tags_def)
  next
    case False
    have "xs ! j \<in> set xs" using assms(2) by simp
    with assms(3) have "xs ! j \<noteq> 0" by metis
    with False that show ?thesis by (simp add: filled_tags_def)
  qed
  then show ?thesis
    by (simp add: find_way_def find_None_iff)
qed

lemma fill_step:
  assumes "distinct xs" "j < length xs" "0 \<notin> set xs" "j < n" "n < 2 ^ 32" "ages age n"
  shows "set_access age n (xs ! j) (filled_tags n xs j, filled_lru n j) =
         (filled_tags n xs (Suc j), filled_lru n (Suc j))"
proof -
  have miss: "find_way n (filled_tags n xs j) (xs ! j) = None"
    using assms(1-3) by (rule find_way_filled_miss)
  have v: "victim n (filled_lru n j) = j"
    using assms(4,5) by (rule victim_filled)
  have t: "(filled_tags n xs j)[j := xs ! j] = filled_tags n xs (Suc j)"
    by (rule nth_equalityI) (auto simp: filled_tags_def nth_list_update less_Suc_eq)
  have a: "age (word_of_nat i) = word_of_nat (Suc i)" if "i < n" for i
    using assms(6) that by (simp add: ages_def)
  have l: "(map age (filled_lru n j))[j := 0] = filled_lru n (Suc j)"
  proof (rule nth_equalityI)
    show "length ((map age (filled_lru n j))[j := 0]) = length (filled_lru n (Suc j))"
      by (simp add: filled_lru_def)
  next
    fix i assume "i < length ((map age (filled_lru n j))[j := 0])"
    then have i: "i < n" by (simp add: filled_lru_def)
    consider "i < j" | "i = j" | "j < i" by linarith
    then show "(map age (filled_lru n j))[j := 0] ! i = filled_lru n (Suc j) ! i"
    proof cases
      case 1
      then have "j - 1 - i < n" using assms(4) by simp
      from a [OF this] 1 i show ?thesis
        by (simp add: filled_lru_def nth_list_update Suc_diff_Suc)
    next
      case 2
      with i show ?thesis by (simp add: filled_lru_def)
    next
      case 3
      from a [OF assms(4)] 3 i show ?thesis
        by (simp add: filled_lru_def nth_list_update)
    qed
  qed
  show ?thesis
    by (simp add: set_access_def miss v t l)
qed

lemma fill_all:
  assumes "distinct xs" "0 \<notin> set xs" "n < 2 ^ 32" "ages age n"
  shows "j \<le> length xs \<Longrightarrow> j \<le> n \<Longrightarrow>
    fold (set_access age n) (take j xs) (replicate n 0, replicate n 0) =
      (filled_tags n xs j, filled_lru n j)"
proof (induction j)
  case 0
  have "filled_tags n xs 0 = replicate n 0"
    by (rule nth_equalityI) (simp_all add: filled_tags_def)
  moreover have "filled_lru n 0 = replicate n 0"
    by (rule nth_equalityI) (simp_all add: filled_lru_def)
  ultimately show ?case by simp
next
  case (Suc j)
  then have j: "j < length xs" "j < n" by simp_all
  have "take (Suc j) xs = take j xs @ [xs ! j]"
    using j(1) by (rule take_Suc_conv_app_nth)
  then show ?case
    using Suc j fill_step [OF assms(1) j(1) assms(2) j(2) assms(3,4)] by simp
qed

lemma filled_tags_full: "length xs = n \<Longrightarrow> filled_tags n xs n = xs"
  by (rule nth_equalityI) (simp_all add: filled_tags_def)

lemma find_way_hit:
  assumes "distinct xs" "k < n" "length xs = n"
  shows "find_way n xs (xs ! k) = Some k"
proof -
  have "xs ! j \<noteq> xs ! k" if "j < k" for j
    using assms that by (simp add: nth_eq_iff_index_eq)
  then show ?thesis
    unfolding find_way_def find_Some_iff
    using assms(2) by (intro exI [of _ k]) simp
qed

lemma victim_full:
  assumes "0 < n" "n < 2 ^ 32"
  shows "victim n (filled_lru n n) = 0"
proof (cases "n = 1")
  case True
  then show ?thesis by (simp add: victim_zero filled_lru_def)
next
  case False
  with assms have n: "2 \<le> n" by simp
  have nth: "filled_lru n n ! i = word_of_nat (n - 1 - i)" if "i < n" for i
    using that by (simp only: filled_lru_nth if_True)
  show ?thesis
  proof (rule victim_first)
    show "0 < n" by fact
    have "(0 :: u32) < word_of_nat (n - 1)"
      using n assms by (intro u32_of_nat_pos) simp_all
    then show "0 < filled_lru n n ! 0"
      using nth [OF assms(1)] by (simp only: diff_zero)
    show "\<forall>j<0. filled_lru n n ! j < filled_lru n n ! 0" by simp
    show "\<forall>j<n. filled_lru n n ! j \<le> filled_lru n n ! 0"
    proof (intro allI impI)
      fix j assume j: "j < n"
      have "(word_of_nat (n - 1 - j) :: u32) \<le> word_of_nat (n - 1 - 0)"
        using assms by (intro u32_of_nat_le) simp_all
      then show "filled_lru n n ! j \<le> filled_lru n n ! 0"
        by (simp only: nth [OF j] nth [OF assms(1)])
    qed
  qed
qed

lemma touched_lru_nth:
  assumes "ages age n" "i < n" "k < n"
  shows "(map age (filled_lru n n))[k := 0] ! i = (if i = k then 0 else word_of_nat (n - i))"
proof (cases "i = k")
  case True
  with assms show ?thesis by (simp add: filled_lru_def)
next
  case False
  have "n - 1 - i < n" using assms(2) by simp
  with assms(1) have "age (word_of_nat (n - 1 - i)) = word_of_nat (Suc (n - 1 - i))"
    by (simp only: ages_def)
  moreover have "Suc (n - 1 - i) = n - i" using assms(2) by simp
  moreover have "(map age (filled_lru n n))[k := 0] ! i = age (filled_lru n n ! i)"
    using False assms(2) by (simp add: filled_lru_def)
  moreover have "filled_lru n n ! i = word_of_nat (n - 1 - i)"
    using assms(2) by (simp only: filled_lru_nth if_True)
  ultimately show ?thesis using False by (simp only: if_False)
qed

lemma victim_touched:
  assumes "ages age n" "k < n" "2 \<le> n" "n < 2 ^ 32"
  shows "victim n ((map age (filled_lru n n))[k := 0]) = (if k = 0 then 1 else 0)"
proof -
  let ?l = "(map age (filled_lru n n))[k := 0]"
  have nth: "?l ! i = (if i = k then 0 else word_of_nat (n - i))" if "i < n" for i
    using assms(1) that assms(2) by (rule touched_lru_nth)
  have le: "(word_of_nat (n - i) :: u32) \<le> word_of_nat (n - j)" if "j \<le> i" for i j
    using that assms(4) by (intro u32_of_nat_le) simp_all
  show ?thesis
  proof (cases "k = 0")
    case True
    have n1: "1 < n" using assms(3) by simp
    have v1: "?l ! 1 = word_of_nat (n - 1)" using nth [OF n1] True by simp
    have v0: "?l ! 0 = 0" using nth [of 0] True assms(2) by simp
    have pos: "(0 :: u32) < word_of_nat (n - 1)"
      using assms by (intro u32_of_nat_pos) simp_all
    have "victim n ?l = 1"
    proof (rule victim_first)
      show "1 < n" by fact
      show "0 < ?l ! 1" using pos by (simp only: v1)
      show "\<forall>j<1. ?l ! j < ?l ! 1"
      proof (intro allI impI)
        fix j :: nat assume "j < 1"
        then have "j = 0" by simp
        with pos show "?l ! j < ?l ! 1" by (simp only: v0 v1)
      qed
      show "\<forall>j<n. ?l ! j \<le> ?l ! 1"
      proof (intro allI impI)
        fix j assume j: "j < n"
        show "?l ! j \<le> ?l ! 1"
        proof (cases "j = 0")
          case True
          then show ?thesis by (simp only: v0 word_zero_le)
        next
          case False
          then have "?l ! j = word_of_nat (n - j)" using nth [OF j] \<open>k = 0\<close> by simp
          moreover have "(word_of_nat (n - j) :: u32) \<le> word_of_nat (n - 1)"
            using False by (intro le) simp
          ultimately show ?thesis by (simp only: v1)
        qed
      qed
    qed
    with True show ?thesis by simp
  next
    case False
    have n0: "0 < n" using assms(3) by simp
    have v0: "?l ! 0 = word_of_nat n" using nth [OF n0] False by simp
    have pos: "(0 :: u32) < word_of_nat n"
      using assms n0 by (intro u32_of_nat_pos) simp_all
    have "victim n ?l = 0"
    proof (rule victim_first)
      show "0 < n" by fact
      show "0 < ?l ! 0" using pos by (simp only: v0)
      show "\<forall>j<0. ?l ! j < ?l ! 0" by simp
      show "\<forall>j<n. ?l ! j \<le> ?l ! 0"
      proof (intro allI impI)
        fix j assume j: "j < n"
        show "?l ! j \<le> ?l ! 0"
        proof (cases "j = k")
          case True
          then have "?l ! j = 0" using nth [OF j] by simp
          then show ?thesis by (simp only: word_zero_le)
        next
          case False
          then have "?l ! j = word_of_nat (n - j)" using nth [OF j] by simp
          moreover have "(word_of_nat (n - j) :: u32) \<le> word_of_nat (n - 0)"
            by (intro le) simp
          ultimately show ?thesis by (simp only: v0 diff_zero)
        qed
      qed
    qed
    with False show ?thesis by simp
  qed
qed

text \<open>The replacement order of one set that starts empty.\<close>

lemma set_filled:
  assumes "distinct xs" "0 \<notin> set xs" "length xs = n" "n < 2 ^ 32" "ages age n"
  shows "fold (set_access age n) xs (replicate n 0, replicate n 0) = (xs, filled_lru n n)"
  using fill_all [OF assms(1,2,4,5), of n] assms(3) by (simp add: filled_tags_full)

lemma set_evicts_first:
  assumes "distinct (xs @ [y])" "0 \<notin> set (xs @ [y])" "length xs = n" "0 < n" "n < 2 ^ 32"
    "ages age n"
  shows "fst (fold (set_access age n) (xs @ [y]) (replicate n 0, replicate n 0)) = xs[0 := y]"
proof -
  have "fold (set_access age n) xs (replicate n 0, replicate n 0) = (xs, filled_lru n n)"
    using assms by (intro set_filled) simp_all
  moreover have "find_way n xs y = None"
    using assms(1,3) by (simp add: find_way_None_set)
  ultimately show ?thesis
    using victim_full [OF assms(4,5)] by (simp add: set_access_def)
qed

lemma set_keeps_touched:
  assumes "distinct (xs @ [y])" "0 \<notin> set (xs @ [y])" "length xs = n" "2 \<le> n" "n < 2 ^ 32"
    "ages age n" "k < n"
  shows "fst (fold (set_access age n) (xs @ [xs ! k, y]) (replicate n 0, replicate n 0))
         = xs[(if k = 0 then 1 else 0) := y]"
proof -
  have "fold (set_access age n) xs (replicate n 0, replicate n 0) = (xs, filled_lru n n)"
    using assms by (intro set_filled) simp_all
  moreover have "find_way n xs (xs ! k) = Some k"
    using assms(1,3,7) by (intro find_way_hit) simp_all
  moreover have "find_way n xs y = None"
    using assms(1,3) by (simp add: find_way_None_set)
  ultimately show ?thesis
    using victim_touched [OF assms(6,7,4,5)] by (simp add: set_access_def)
qed

subsection \<open>An access as a step of its set\<close>

lemma l1_bump_map: "length l = n \<Longrightarrow> l1_bump n l = map age1 l"
  by (rule nth_equalityI) (simp_all add: nth_l1_bump)

lemma l2_bump_map: "length l = n \<Longrightarrow> l2_bump n l = map (\<lambda>x. x + 1) l"
  by (rule nth_equalityI) (simp_all add: nth_l2_bump)

lemma level_ok_index:
  assumes "level_ok sets assoc ts ls" "sets \<noteq> 0"
  shows "set_index bsize sets a < length ts" "set_index bsize sets a < length ls"
    "length (ts ! set_index bsize sets a) = unat assoc"
    "length (ls ! set_index bsize sets a) = unat assoc"
proof -
  from assms(1) have len: "length ts = unat sets" "length ls = unat sets"
    by (simp_all add: level_ok_def)
  with set_index_in_range [OF assms(2)]
  show i: "set_index bsize sets a < length ts" "set_index bsize sets a < length ls"
    by simp_all
  from level_ok_row [OF assms(1) i(1)]
  show "length (ts ! set_index bsize sets a) = unat assoc"
    "length (ls ! set_index bsize sets a) = unat assoc"
    by (simp_all add: set_ok_def)
qed

lemma l2_touch_view:
  assumes "hierarchy_ok cfg s" "l2cacheSets cfg \<noteq> 0"
    "l2_lookup cfg a s = Some i"
  shows "l2_view (set_index (blocksize cfg) (l2cacheSets cfg) a) (l2_touch cfg a i s) =
     set_access (\<lambda>x. x + 1) (unat (l2cacheAssoc cfg))
       (stored_tag (blocksize cfg) (l2cacheSets cfg) a)
       (l2_view (set_index (blocksize cfg) (l2cacheSets cfg) a) s)"
proof -
  from assms(1) have ok: "level_ok (l2cacheSets cfg) (l2cacheAssoc cfg) (l2_tag_storage s) (l2_lru_storage s)"
    by (simp add: hierarchy_ok_def)
  note ix = level_ok_index [OF ok assms(2), of "blocksize cfg" a]
  show ?thesis
    using assms(3) ix
    by (simp add: l2_view_def l2_touch_def set_access_def l2_lookup_def l2_bump_map Let_def)
qed

lemma l2_fill_view:
  assumes "hierarchy_ok cfg s" "l2cacheSets cfg \<noteq> 0"
    "l2_lookup cfg a s = None"
  shows "l2_view (set_index (blocksize cfg) (l2cacheSets cfg) a) (l2_fill cfg a s) =
     set_access (\<lambda>x. x + 1) (unat (l2cacheAssoc cfg))
       (stored_tag (blocksize cfg) (l2cacheSets cfg) a)
       (l2_view (set_index (blocksize cfg) (l2cacheSets cfg) a) s)"
proof -
  from assms(1) have ok: "level_ok (l2cacheSets cfg) (l2cacheAssoc cfg) (l2_tag_storage s) (l2_lru_storage s)"
    by (simp add: hierarchy_ok_def)
  note ix = level_ok_index [OF ok assms(2), of "blocksize cfg" a]
  show ?thesis
    using assms(3) ix
    by (simp add: l2_view_def l2_fill_def set_access_def l2_lookup_def l2_bump_map
        l2_scan_eq Let_def)
qed

lemma l2_view_step:
  assumes ok: "hierarchy_ok cfg s"
    and cfg: "l2cacheSets cfg \<noteq> 0" "blocksize cfg \<noteq> 0" "l2cacheAssoc cfg \<noteq> 0"
  shows "\<exists>t s'. l2cache_access cfg a s = Inr (t, s') \<and>
     l2_view (set_index (blocksize cfg) (l2cacheSets cfg) a) s' =
       set_access (\<lambda>x. x + 1) (unat (l2cacheAssoc cfg))
         (stored_tag (blocksize cfg) (l2cacheSets cfg) a)
         (l2_view (set_index (blocksize cfg) (l2cacheSets cfg) a) s) \<and>
     hierarchy_ok cfg s'"
proof (cases "l2_lookup cfg a s")
  case None
  with cfg have "l2cache_access cfg a s = Inr (l2cacheHitTime cfg + memspeed cfg, l2_fill cfg a s)"
    by (simp add: l2cache_access_eq)
  with l2_fill_view [OF ok cfg(1) None] hierarchy_ok_l2_fill [OF ok None]
  show ?thesis by blast
next
  case (Some i)
  with cfg have "l2cache_access cfg a s = Inr (l2cacheHitTime cfg, l2_touch cfg a i s)"
    by (simp add: l2cache_access_eq)
  with l2_touch_view [OF ok cfg(1) Some] hierarchy_ok_l2_touch [OF ok]
  show ?thesis by blast
qed

lemma icache_touch_view:
  assumes "hierarchy_ok cfg s" "icacheSets cfg \<noteq> 0"
    "icache_lookup cfg a s = Some i"
  shows "icache_view (set_index (blocksize cfg) (icacheSets cfg) a) (icache_touch cfg a i s) =
     set_access age1 (unat (icacheAssoc cfg))
       (stored_tag (blocksize cfg) (icacheSets cfg) a)
       (icache_view (set_index (blocksize cfg) (icacheSets cfg) a) s)"
proof -
  from assms(1) have ok: "level_ok (icacheSets cfg) (icacheAssoc cfg) (l1i_tag_storage s) (l1i_lru_storage s)"
    by (simp add: hierarchy_ok_def)
  note ix = level_ok_index [OF ok assms(2), of "blocksize cfg" a]
  show ?thesis
    using assms(3) ix
    by (simp add: icache_view_def icache_touch_def set_access_def icache_lookup_def l1_bump_map Let_def)
qed

lemma icache_fill_view:
  assumes "hierarchy_ok cfg s" "icacheSets cfg \<noteq> 0"
    "icache_lookup cfg a s = None"
  shows "icache_view (set_index (blocksize cfg) (icacheSets cfg) a) (icache_fill cfg a s) =
     set_access age1 (unat (icacheAssoc cfg))
       (stored_tag (blocksize cfg) (icacheSets cfg) a)
       (icache_view (set_index (blocksize cfg) (icacheSets cfg) a) s)"
proof -
  from assms(1) have ok: "level_ok (icacheSets cfg) (icacheAssoc cfg) (l1i_tag_storage s) (l1i_lru_storage s)"
    by (simp add: hierarchy_ok_def)
  note ix = level_ok_index [OF ok assms(2), of "blocksize cfg" a]
  show ?thesis
    using assms(3) ix
    by (simp add: icache_view_def icache_fill_def set_access_def icache_lookup_def l1_bump_map
        l1_scan_eq Let_def)
qed

lemma icache_view_l2cache_access:
  "l2cache_access cfg a s = Inr (t, s') \<Longrightarrow> icache_view k s' = icache_view k s"
  by (simp add: icache_view_def l2cache_access_l1)

lemma icache_inclusion_off: "inclusive cfg = 0 \<Longrightarrow> icache_inclusion cfg s = s"
  by (simp add: icache_inclusion_def)

lemma icache_view_penalties [simp]:
  "icache_view k (s\<lparr>icachePenalties := p\<rparr>) = icache_view k s"
  by (simp add: icache_view_def)

lemma icache_view_step:
  assumes ok: "hierarchy_ok cfg s"
    and cfg: "icacheSets cfg \<noteq> 0" "blocksize cfg \<noteq> 0" "icacheAssoc cfg \<noteq> 0"
    and l2: "level_defined cfg (l2cacheSets cfg) (l2cacheAssoc cfg)"
    and off: "inclusive cfg = 0"
  shows "\<exists>t s'. icache_access cfg a s = Inr (t, s') \<and>
     icache_view (set_index (blocksize cfg) (icacheSets cfg) a) s' =
       set_access age1 (unat (icacheAssoc cfg))
         (stored_tag (blocksize cfg) (icacheSets cfg) a)
         (icache_view (set_index (blocksize cfg) (icacheSets cfg) a) s) \<and>
     hierarchy_ok cfg s'"
proof (cases "icache_lookup cfg a s")
  case None
  obtain t2 s4 where r: "l2cache_access cfg a (icache_fill cfg a s) = Inr (t2, s4)"
    using l2cache_access_returns [OF l2] by blast
  have okf: "hierarchy_ok cfg (icache_fill cfg a s)"
    using ok None by (rule hierarchy_ok_icache_fill)
  have ok4: "hierarchy_ok cfg s4"
    using okf r by (rule hierarchy_ok_l2cache_access)
  have "icache_access cfg a s =
      Inr (icacheHitTime cfg + t2, s4\<lparr>icachePenalties := icachePenalties s4 + ucast t2\<rparr>)"
    using cfg None r by (simp add: icache_access_eq icache_inclusion_off [OF off])
  moreover have "icache_view (set_index (blocksize cfg) (icacheSets cfg) a)
      (s4\<lparr>icachePenalties := icachePenalties s4 + ucast t2\<rparr>) =
       set_access age1 (unat (icacheAssoc cfg))
         (stored_tag (blocksize cfg) (icacheSets cfg) a)
         (icache_view (set_index (blocksize cfg) (icacheSets cfg) a) s)"
    using icache_view_l2cache_access [OF r] icache_fill_view [OF ok cfg(1) None] by simp
  moreover have "hierarchy_ok cfg (s4\<lparr>icachePenalties := icachePenalties s4 + ucast t2\<rparr>)"
    using ok4 by simp
  ultimately show ?thesis by blast
next
  case (Some i)
  with cfg have "icache_access cfg a s = Inr (icacheHitTime cfg, icache_touch cfg a i s)"
    by (simp add: icache_access_eq)
  with icache_touch_view [OF ok cfg(1) Some] hierarchy_ok_icache_touch [OF ok]
  show ?thesis by blast
qed

lemma dcache_touch_view:
  assumes "hierarchy_ok cfg s" "dcacheSets cfg \<noteq> 0"
    "dcache_lookup cfg a s = Some i"
  shows "dcache_view (set_index (blocksize cfg) (dcacheSets cfg) a) (dcache_touch cfg a i s) =
     set_access age1 (unat (dcacheAssoc cfg))
       (stored_tag (blocksize cfg) (dcacheSets cfg) a)
       (dcache_view (set_index (blocksize cfg) (dcacheSets cfg) a) s)"
proof -
  from assms(1) have ok: "level_ok (dcacheSets cfg) (dcacheAssoc cfg) (l1d_tag_storage s) (l1d_lru_storage s)"
    by (simp add: hierarchy_ok_def)
  note ix = level_ok_index [OF ok assms(2), of "blocksize cfg" a]
  show ?thesis
    using assms(3) ix
    by (simp add: dcache_view_def dcache_touch_def set_access_def dcache_lookup_def l1_bump_map Let_def)
qed

lemma dcache_fill_view:
  assumes "hierarchy_ok cfg s" "dcacheSets cfg \<noteq> 0"
    "dcache_lookup cfg a s = None"
  shows "dcache_view (set_index (blocksize cfg) (dcacheSets cfg) a) (dcache_fill cfg a s) =
     set_access age1 (unat (dcacheAssoc cfg))
       (stored_tag (blocksize cfg) (dcacheSets cfg) a)
       (dcache_view (set_index (blocksize cfg) (dcacheSets cfg) a) s)"
proof -
  from assms(1) have ok: "level_ok (dcacheSets cfg) (dcacheAssoc cfg) (l1d_tag_storage s) (l1d_lru_storage s)"
    by (simp add: hierarchy_ok_def)
  note ix = level_ok_index [OF ok assms(2), of "blocksize cfg" a]
  show ?thesis
    using assms(3) ix
    by (simp add: dcache_view_def dcache_fill_def set_access_def dcache_lookup_def l1_bump_map
        l1_scan_eq Let_def)
qed

lemma dcache_view_l2cache_access:
  "l2cache_access cfg a s = Inr (t, s') \<Longrightarrow> dcache_view k s' = dcache_view k s"
  by (simp add: dcache_view_def l2cache_access_l1)

lemma dcache_inclusion_off: "inclusive cfg = 0 \<Longrightarrow> dcache_inclusion cfg s = s"
  by (simp add: dcache_inclusion_def)

lemma dcache_view_penalties [simp]:
  "dcache_view k (s\<lparr>dcachePenalties := p\<rparr>) = dcache_view k s"
  by (simp add: dcache_view_def)

lemma dcache_view_step:
  assumes ok: "hierarchy_ok cfg s"
    and cfg: "dcacheSets cfg \<noteq> 0" "blocksize cfg \<noteq> 0" "dcacheAssoc cfg \<noteq> 0"
    and l2: "level_defined cfg (l2cacheSets cfg) (l2cacheAssoc cfg)"
    and off: "inclusive cfg = 0"
  shows "\<exists>t s'. dcache_access cfg a s = Inr (t, s') \<and>
     dcache_view (set_index (blocksize cfg) (dcacheSets cfg) a) s' =
       set_access age1 (unat (dcacheAssoc cfg))
         (stored_tag (blocksize cfg) (dcacheSets cfg) a)
         (dcache_view (set_index (blocksize cfg) (dcacheSets cfg) a) s) \<and>
     hierarchy_ok cfg s'"
proof (cases "dcache_lookup cfg a s")
  case None
  obtain t2 s4 where r: "l2cache_access cfg a (dcache_fill cfg a s) = Inr (t2, s4)"
    using l2cache_access_returns [OF l2] by blast
  have okf: "hierarchy_ok cfg (dcache_fill cfg a s)"
    using ok None by (rule hierarchy_ok_dcache_fill)
  have ok4: "hierarchy_ok cfg s4"
    using okf r by (rule hierarchy_ok_l2cache_access)
  have "dcache_access cfg a s =
      Inr (dcacheHitTime cfg + t2, s4\<lparr>dcachePenalties := dcachePenalties s4 + ucast t2\<rparr>)"
    using cfg None r by (simp add: dcache_access_eq dcache_inclusion_off [OF off])
  moreover have "dcache_view (set_index (blocksize cfg) (dcacheSets cfg) a)
      (s4\<lparr>dcachePenalties := dcachePenalties s4 + ucast t2\<rparr>) =
       set_access age1 (unat (dcacheAssoc cfg))
         (stored_tag (blocksize cfg) (dcacheSets cfg) a)
         (dcache_view (set_index (blocksize cfg) (dcacheSets cfg) a) s)"
    using dcache_view_l2cache_access [OF r] dcache_fill_view [OF ok cfg(1) None] by simp
  moreover have "hierarchy_ok cfg (s4\<lparr>dcachePenalties := dcachePenalties s4 + ucast t2\<rparr>)"
    using ok4 by simp
  ultimately show ?thesis by blast
next
  case (Some i)
  with cfg have "dcache_access cfg a s = Inr (dcacheHitTime cfg, dcache_touch cfg a i s)"
    by (simp add: dcache_access_eq)
  with dcache_touch_view [OF ok cfg(1) Some] hierarchy_ok_dcache_touch [OF ok]
  show ?thesis by blast
qed

subsection \<open>A sequence of accesses to one set\<close>

lemma accesses_fold:
  assumes step: "\<And>a s. a \<in> set as \<Longrightarrow> good s \<Longrightarrow>
      \<exists>t s'. f a s = Inr (t, s') \<and> view s' = g (tag a) (view s) \<and> good s'"
    and "good s"
  shows "\<exists>ts s'. accesses f as s = Inr (ts, s') \<and>
      view s' = fold g (map tag as) (view s) \<and> good s'"
  using assms
proof (induction as arbitrary: s)
  case Nil
  then show ?case by simp
next
  case (Cons a as)
  from Cons.prems(1) [of a s] Cons.prems(2)
  obtain t s1 where a: "f a s = Inr (t, s1)" "view s1 = g (tag a) (view s)" "good s1"
    by auto
  have "\<exists>ts s'. accesses f as s1 = Inr (ts, s') \<and>
      view s' = fold g (map tag as) (view s1) \<and> good s'"
    using Cons.prems(1) a(3) by (intro Cons.IH) simp_all
  then obtain ts s' where "accesses f as s1 = Inr (ts, s')"
    "view s' = fold g (map tag as) (view s1)" "good s'"
    by blast
  with a show ?case by simp
qed

subsection \<open>Least recently used replacement in a level\<close>

lemma stored_tag_nonzero: "stored_tag bsize sets a \<noteq> 0"
  using valid_stored_tag [of bsize sets a] invalid_zero by metis

lemma set_update_head: "xs \<noteq> [] \<Longrightarrow> set (xs[0 := y]) = set (tl (xs @ [y]))"
  by (cases xs) auto

lemma level_lru:
  fixes view :: "nat \<Rightarrow> state \<Rightarrow> u32 list \<times> u32 list"
  assumes step: "\<And>a s. good s \<Longrightarrow>
      \<exists>t s'. f a s = Inr (t, s') \<and>
        view (set_index bsize sets a) s' =
          set_access age (unat assoc) (stored_tag bsize sets a) (view (set_index bsize sets a) s) \<and>
        good s'"
    and good: "good s"
    and setting: "lru_setting bsize sets assoc k (view k s) addrs"
    and ages: "ages age (unat assoc)"
  shows "\<exists>ts s'. accesses f addrs s = Inr (ts, s') \<and>
           set (fst (view k s')) = stored_tag bsize sets ` set (tl addrs) \<and>
           stored_tag bsize sets (hd addrs) \<notin> set (fst (view k s'))"
    and "j < unat assoc \<Longrightarrow> 2 \<le> unat assoc \<Longrightarrow>
         \<exists>ts s'. accesses f (butlast addrs @ [addrs ! j, last addrs]) s = Inr (ts, s') \<and>
           stored_tag bsize sets (addrs ! j) \<in> set (fst (view k s'))"
proof -
  let ?n = "unat assoc"
  let ?tag = "stored_tag bsize sets"
  let ?xs = "map ?tag (butlast addrs)"
  let ?y = "?tag (last addrs)"
  let ?empty = "(replicate ?n (0::u32), replicate ?n (0::u32))"
  from setting have len: "length addrs = ?n + 1"
    and idx: "\<And>a. a \<in> set addrs \<Longrightarrow> set_index bsize sets a = k"
    and dist: "distinct (map ?tag addrs)"
    and start: "view k s = ?empty"
    and pos: "0 < ?n"
    by (simp_all add: lru_setting_def list_all_iff unat_gt_0)
  have ne: "addrs \<noteq> []" using len by auto
  then have split: "addrs = butlast addrs @ [last addrs]" by simp
  have tags: "map ?tag addrs = ?xs @ [?y]"
    by (subst split) simp
  have lxs: "length ?xs = ?n" using len by simp
  have d: "distinct (?xs @ [?y])" using dist by (simp only: tags)
  have nz: "0 \<notin> set (?xs @ [?y])"
    using stored_tag_nonzero [of bsize sets] by (auto simp: image_iff)
  have bound: "?n < 2 ^ 32" using unsigned_less [of assoc, where ?'a = nat] by simp
  have stepk: "\<exists>t s'. f a s = Inr (t, s') \<and>
        view k s' = set_access age ?n (?tag a) (view k s) \<and> good s'"
    if "a \<in> set addrs" "good s" for a s
    using step [OF that(2), of a] idx [OF that(1)] by simp
  show "\<exists>ts s'. accesses f addrs s = Inr (ts, s') \<and>
           set (fst (view k s')) = ?tag ` set (tl addrs) \<and>
           ?tag (hd addrs) \<notin> set (fst (view k s'))"
  proof -
    from accesses_fold [of addrs good f "view k" "set_access age ?n" ?tag s, OF stepk good]
    obtain ts s' where run: "accesses f addrs s = Inr (ts, s')"
      and v: "view k s' = fold (set_access age ?n) (map ?tag addrs) (view k s)"
      by blast
    have fstv: "fst (view k s') = ?xs[0 := ?y]"
      unfolding v start tags using d nz lxs pos bound ages by (rule set_evicts_first)
    have nexs: "?xs \<noteq> []"
    proof -
      from lxs pos have "0 < length ?xs" by (simp only:)
      then show ?thesis by (rule length_greater_0_conv [THEN iffD1])
    qed
    have "set (fst (view k s')) = set (tl (?xs @ [?y]))"
      unfolding fstv by (rule set_update_head [OF nexs])
    also have "\<dots> = set (tl (map ?tag addrs))" by (simp only: tags)
    also have "\<dots> = ?tag ` set (tl addrs)" by (cases addrs) simp_all
    finally have res: "set (fst (view k s')) = ?tag ` set (tl addrs)" .
    have "?tag (hd addrs) \<notin> ?tag ` set (tl addrs)"
      using dist ne by (cases addrs) auto
    with run res show ?thesis by blast
  qed
  show "\<exists>ts s'. accesses f (butlast addrs @ [addrs ! j, last addrs]) s = Inr (ts, s') \<and>
           ?tag (addrs ! j) \<in> set (fst (view k s'))"
    if j: "j < ?n" and two: "2 \<le> ?n"
  proof -
    let ?as = "butlast addrs @ [addrs ! j, last addrs]"
    have jl: "j < length (butlast addrs)" using j len by simp
    have aj: "addrs ! j = butlast addrs ! j" using jl by (simp add: nth_butlast)
    have "addrs ! j \<in> set addrs" using j len by (intro nth_mem) simp
    moreover have "last addrs \<in> set addrs" using ne by (rule last_in_set)
    moreover have "set (butlast addrs) \<subseteq> set addrs" by (auto dest: in_set_butlastD)
    ultimately have sub: "set ?as \<subseteq> set addrs" by simp
    have stepk': "\<exists>t s'. f a s = Inr (t, s') \<and>
        view k s' = set_access age ?n (?tag a) (view k s) \<and> good s'"
      if "a \<in> set ?as" "good s" for a s
      using stepk [of a s] that sub by blast
    from accesses_fold [of ?as good f "view k" "set_access age ?n" ?tag s, OF stepk' good]
    obtain ts s' where run: "accesses f ?as s = Inr (ts, s')"
      and v: "view k s' = fold (set_access age ?n) (map ?tag ?as) (view k s)"
      by blast
    have tags': "map ?tag ?as = ?xs @ [?xs ! j, ?y]"
      using jl by (simp add: aj)
    have "fst (view k s') = ?xs[(if j = 0 then 1 else 0) := ?y]"
      unfolding v start tags' using d nz lxs two bound ages j by (rule set_keeps_touched)
    moreover have "?xs[(if j = 0 then 1 else 0) := ?y] ! j = ?xs ! j"
      by (simp add: nth_list_update)
    moreover have "j < length (?xs[(if j = 0 then 1 else 0) := ?y])"
      using lxs j by simp
    ultimately have "?xs ! j \<in> set (fst (view k s'))"
      by (metis nth_mem)
    moreover have "?xs ! j = ?tag (addrs ! j)" using jl by (simp add: aj)
    ultimately show ?thesis using run by auto
  qed
qed

lemma l2_lru:
  assumes "hierarchy_ok cfg s"
    and "lru_setting (blocksize cfg) (l2cacheSets cfg) (l2cacheAssoc cfg) k (l2_view k s) addrs"
  shows "\<exists>ts s'. accesses (l2cache_access cfg) addrs s = Inr (ts, s') \<and>
           set (l2_tag_storage s' ! k) =
             stored_tag (blocksize cfg) (l2cacheSets cfg) ` set (tl addrs) \<and>
           stored_tag (blocksize cfg) (l2cacheSets cfg) (hd addrs) \<notin> set (l2_tag_storage s' ! k)"
    and "j < unat (l2cacheAssoc cfg) \<Longrightarrow> 2 \<le> unat (l2cacheAssoc cfg) \<Longrightarrow>
         \<exists>ts s'. accesses (l2cache_access cfg) (butlast addrs @ [addrs ! j, last addrs]) s
                   = Inr (ts, s') \<and>
           stored_tag (blocksize cfg) (l2cacheSets cfg) (addrs ! j) \<in> set (l2_tag_storage s' ! k)"
proof -
  from assms(2) have cfg: "l2cacheSets cfg \<noteq> 0" "blocksize cfg \<noteq> 0" "l2cacheAssoc cfg \<noteq> 0"
    by (simp_all add: lru_setting_def)
  note L1 = level_lru(1) [of "hierarchy_ok cfg" "l2cache_access cfg" l2_view "blocksize cfg"
      "l2cacheSets cfg" "\<lambda>x. x + 1" "l2cacheAssoc cfg" s k addrs,
      OF l2_view_step [OF _ cfg] assms(1) assms(2) ages_plus, unfolded l2_view_def fst_conv]
  note L2 = level_lru(2) [of "hierarchy_ok cfg" "l2cache_access cfg" l2_view "blocksize cfg"
      "l2cacheSets cfg" "\<lambda>x. x + 1" "l2cacheAssoc cfg" s k addrs j,
      OF l2_view_step [OF _ cfg] assms(1) assms(2) ages_plus, unfolded l2_view_def fst_conv]
  show "\<exists>ts s'. accesses (l2cache_access cfg) addrs s = Inr (ts, s') \<and>
           set (l2_tag_storage s' ! k) =
             stored_tag (blocksize cfg) (l2cacheSets cfg) ` set (tl addrs) \<and>
           stored_tag (blocksize cfg) (l2cacheSets cfg) (hd addrs) \<notin> set (l2_tag_storage s' ! k)"
    by (rule L1)
  show "j < unat (l2cacheAssoc cfg) \<Longrightarrow> 2 \<le> unat (l2cacheAssoc cfg) \<Longrightarrow>
         \<exists>ts s'. accesses (l2cache_access cfg) (butlast addrs @ [addrs ! j, last addrs]) s
                   = Inr (ts, s') \<and>
           stored_tag (blocksize cfg) (l2cacheSets cfg) (addrs ! j) \<in> set (l2_tag_storage s' ! k)"
    by (rule L2)
qed

lemma icache_lru:
  assumes "hierarchy_ok cfg s" and "inclusive cfg = 0"
    and "level_defined cfg (l2cacheSets cfg) (l2cacheAssoc cfg)"
    and "lru_setting (blocksize cfg) (icacheSets cfg) (icacheAssoc cfg) k (icache_view k s) addrs"
  shows "\<exists>ts s'. accesses (icache_access cfg) addrs s = Inr (ts, s') \<and>
           set (l1i_tag_storage s' ! k) =
             stored_tag (blocksize cfg) (icacheSets cfg) ` set (tl addrs) \<and>
           stored_tag (blocksize cfg) (icacheSets cfg) (hd addrs) \<notin> set (l1i_tag_storage s' ! k)"
    and "j < unat (icacheAssoc cfg) \<Longrightarrow> 2 \<le> unat (icacheAssoc cfg) \<Longrightarrow>
         \<exists>ts s'. accesses (icache_access cfg) (butlast addrs @ [addrs ! j, last addrs]) s
                   = Inr (ts, s') \<and>
           stored_tag (blocksize cfg) (icacheSets cfg) (addrs ! j) \<in> set (l1i_tag_storage s' ! k)"
proof -
  from assms(4) have cfg: "icacheSets cfg \<noteq> 0" "blocksize cfg \<noteq> 0" "icacheAssoc cfg \<noteq> 0"
    by (simp_all add: lru_setting_def)
  have "unat (icacheAssoc cfg) < 2 ^ 32"
    using unsigned_less [of "icacheAssoc cfg", where ?'a = nat] by simp
  then have ag: "ages age1 (unat (icacheAssoc cfg))" by (rule ages_age1)
  note L1 = level_lru(1) [of "hierarchy_ok cfg" "icache_access cfg" icache_view "blocksize cfg"
      "icacheSets cfg" age1 "icacheAssoc cfg" s k addrs,
      OF icache_view_step [OF _ cfg assms(3,2)] assms(1) assms(4) ag,
      unfolded icache_view_def fst_conv]
  note L2 = level_lru(2) [of "hierarchy_ok cfg" "icache_access cfg" icache_view "blocksize cfg"
      "icacheSets cfg" age1 "icacheAssoc cfg" s k addrs j,
      OF icache_view_step [OF _ cfg assms(3,2)] assms(1) assms(4) ag,
      unfolded icache_view_def fst_conv]
  show "\<exists>ts s'. accesses (icache_access cfg) addrs s = Inr (ts, s') \<and>
           set (l1i_tag_storage s' ! k) =
             stored_tag (blocksize cfg) (icacheSets cfg) ` set (tl addrs) \<and>
           stored_tag (blocksize cfg) (icacheSets cfg) (hd addrs) \<notin> set (l1i_tag_storage s' ! k)"
    by (rule L1)
  show "j < unat (icacheAssoc cfg) \<Longrightarrow> 2 \<le> unat (icacheAssoc cfg) \<Longrightarrow>
         \<exists>ts s'. accesses (icache_access cfg) (butlast addrs @ [addrs ! j, last addrs]) s
                   = Inr (ts, s') \<and>
           stored_tag (blocksize cfg) (icacheSets cfg) (addrs ! j) \<in> set (l1i_tag_storage s' ! k)"
    by (rule L2)
qed

lemma dcache_lru:
  assumes "hierarchy_ok cfg s" and "inclusive cfg = 0"
    and "level_defined cfg (l2cacheSets cfg) (l2cacheAssoc cfg)"
    and "lru_setting (blocksize cfg) (dcacheSets cfg) (dcacheAssoc cfg) k (dcache_view k s) addrs"
  shows "\<exists>ts s'. accesses (dcache_access cfg) addrs s = Inr (ts, s') \<and>
           set (l1d_tag_storage s' ! k) =
             stored_tag (blocksize cfg) (dcacheSets cfg) ` set (tl addrs) \<and>
           stored_tag (blocksize cfg) (dcacheSets cfg) (hd addrs) \<notin> set (l1d_tag_storage s' ! k)"
    and "j < unat (dcacheAssoc cfg) \<Longrightarrow> 2 \<le> unat (dcacheAssoc cfg) \<Longrightarrow>
         \<exists>ts s'. accesses (dcache_access cfg) (butlast addrs @ [addrs ! j, last addrs]) s
                   = Inr (ts, s') \<and>
           stored_tag (blocksize cfg) (dcacheSets cfg) (addrs ! j) \<in> set (l1d_tag_storage s' ! k)"
proof -
  from assms(4) have cfg: "dcacheSets cfg \<noteq> 0" "blocksize cfg \<noteq> 0" "dcacheAssoc cfg \<noteq> 0"
    by (simp_all add: lru_setting_def)
  have "unat (dcacheAssoc cfg) < 2 ^ 32"
    using unsigned_less [of "dcacheAssoc cfg", where ?'a = nat] by simp
  then have ag: "ages age1 (unat (dcacheAssoc cfg))" by (rule ages_age1)
  note L1 = level_lru(1) [of "hierarchy_ok cfg" "dcache_access cfg" dcache_view "blocksize cfg"
      "dcacheSets cfg" age1 "dcacheAssoc cfg" s k addrs,
      OF dcache_view_step [OF _ cfg assms(3,2)] assms(1) assms(4) ag,
      unfolded dcache_view_def fst_conv]
  note L2 = level_lru(2) [of "hierarchy_ok cfg" "dcache_access cfg" dcache_view "blocksize cfg"
      "dcacheSets cfg" age1 "dcacheAssoc cfg" s k addrs j,
      OF dcache_view_step [OF _ cfg assms(3,2)] assms(1) assms(4) ag,
      unfolded dcache_view_def fst_conv]
  show "\<exists>ts s'. accesses (dcache_access cfg) addrs s = Inr (ts, s') \<and>
           set (l1d_tag_storage s' ! k) =
             stored_tag (blocksize cfg) (dcacheSets cfg) ` set (tl addrs) \<and>
           stored_tag (blocksize cfg) (dcacheSets cfg) (hd addrs) \<notin> set (l1d_tag_storage s' ! k)"
    by (rule L1)
  show "j < unat (dcacheAssoc cfg) \<Longrightarrow> 2 \<le> unat (dcacheAssoc cfg) \<Longrightarrow>
         \<exists>ts s'. accesses (dcache_access cfg) (butlast addrs @ [addrs ! j, last addrs]) s
                   = Inr (ts, s') \<and>
           stored_tag (blocksize cfg) (dcacheSets cfg) (addrs ! j) \<in> set (l1d_tag_storage s' ! k)"
    by (rule L2)
qed

text \<open>
  C5 as stated fails in two ways. With blocks of one byte and one set the stored tag is
  the address with its top bit forced to 1, so the distinct blocks 0 and
  \<open>0x80000000\<close> share a tag: in a one-way L2 the second access hits and the first block
  is not evicted. And in an L1 under an inclusive L2 the inclusion step removes blocks on
  the address the L2 reports: after instruction accesses to 8 and 0, the data accesses 8,
  4, 12 into the empty two-way data set leave only the block of 12 in it.
\<close>

theorem lru_fails_on_shared_tag_and_inclusion:
  "(0 :: u32) \<noteq> 0x80000000 \<and>
   set_index (blocksize alias_cfg) (l2cacheSets alias_cfg) 0 = 0 \<and>
   set_index (blocksize alias_cfg) (l2cacheSets alias_cfg) 0x80000000 = 0 \<and>
   stored_tag (blocksize alias_cfg) (l2cacheSets alias_cfg) 0 = 0x80000000 \<and>
   stored_tag (blocksize alias_cfg) (l2cacheSets alias_cfg) 0x80000000 = 0x80000000 \<and>
   (case accesses (l2cache_access alias_cfg) [0, 0x80000000]
           (init_cache alias_cfg program_start) of
      Inl e \<Rightarrow> False
    | Inr (ts, s') \<Rightarrow>
        ts = [55, 5] \<and> l2_tag_storage s' ! 0 = [0x80000000] \<and> l2cacheMisses s' = 1) \<and>
   (case accesses (icache_access sentinel_cfg) [8, 0] (init_cache sentinel_cfg program_start) of
      Inl e \<Rightarrow> False
    | Inr (ts, s) \<Rightarrow>
        hierarchy_ok sentinel_cfg s \<and>
        lru_setting (blocksize sentinel_cfg) (dcacheSets sentinel_cfg) (dcacheAssoc sentinel_cfg)
          0 (dcache_view 0 s) [8, 4, 12] \<and>
        (case accesses (dcache_access sentinel_cfg) [8, 4, 12] s of
           Inl e \<Rightarrow> False
         | Inr (ts', s') \<Rightarrow>
             l1d_tag_storage s' ! 0 = [0, 0x80000003] \<and>
             stored_tag (blocksize sentinel_cfg) (dcacheSets sentinel_cfg) 4
               \<notin> set (l1d_tag_storage s' ! 0)))"
  by code_simp

text \<open>
  C5, as amended. Take the L2, or an L1 of a hierarchy without inclusion
  (\<^verbatim>\<open>inclusive = 0\<close>) whose L2 is bypassed or defined, with \<open>N \<ge> 1\<close> ways, in a well-formed
  state in which set \<open>k\<close> is as \<^verbatim>\<open>init_cache\<close> left it, and \<open>N + 1\<close> addresses that map to
  set \<open>k\<close> and have pairwise distinct stored tags. Accessing them in order returns, and
  afterwards the set holds exactly the tags of the last \<open>N\<close> addresses: the first-accessed
  block, and only it, has been evicted. If one of the first \<open>N\<close> addresses is accessed
  again before the last one (\<open>N \<ge> 2\<close>), its block is still in the set after the last
  access.
\<close>

theorem lru_replacement:
  "(hierarchy_ok cfg s \<longrightarrow>
    lru_setting (blocksize cfg) (l2cacheSets cfg) (l2cacheAssoc cfg) k (l2_view k s) addrs \<longrightarrow>
      (\<exists>ts s'. accesses (l2cache_access cfg) addrs s = Inr (ts, s') \<and>
         set (l2_tag_storage s' ! k) =
           stored_tag (blocksize cfg) (l2cacheSets cfg) ` set (tl addrs) \<and>
         stored_tag (blocksize cfg) (l2cacheSets cfg) (hd addrs) \<notin> set (l2_tag_storage s' ! k)) \<and>
      (j < unat (l2cacheAssoc cfg) \<longrightarrow> 2 \<le> unat (l2cacheAssoc cfg) \<longrightarrow>
         (\<exists>ts s'. accesses (l2cache_access cfg) (butlast addrs @ [addrs ! j, last addrs]) s
                    = Inr (ts, s') \<and>
            stored_tag (blocksize cfg) (l2cacheSets cfg) (addrs ! j)
              \<in> set (l2_tag_storage s' ! k)))) \<and>
   (hierarchy_ok cfg s \<longrightarrow> inclusive cfg = 0 \<longrightarrow>
    level_defined cfg (l2cacheSets cfg) (l2cacheAssoc cfg) \<longrightarrow>
    lru_setting (blocksize cfg) (icacheSets cfg) (icacheAssoc cfg) k (icache_view k s) addrs \<longrightarrow>
      (\<exists>ts s'. accesses (icache_access cfg) addrs s = Inr (ts, s') \<and>
         set (l1i_tag_storage s' ! k) =
           stored_tag (blocksize cfg) (icacheSets cfg) ` set (tl addrs) \<and>
         stored_tag (blocksize cfg) (icacheSets cfg) (hd addrs) \<notin> set (l1i_tag_storage s' ! k)) \<and>
      (j < unat (icacheAssoc cfg) \<longrightarrow> 2 \<le> unat (icacheAssoc cfg) \<longrightarrow>
         (\<exists>ts s'. accesses (icache_access cfg) (butlast addrs @ [addrs ! j, last addrs]) s
                    = Inr (ts, s') \<and>
            stored_tag (blocksize cfg) (icacheSets cfg) (addrs ! j)
              \<in> set (l1i_tag_storage s' ! k)))) \<and>
   (hierarchy_ok cfg s \<longrightarrow> inclusive cfg = 0 \<longrightarrow>
    level_defined cfg (l2cacheSets cfg) (l2cacheAssoc cfg) \<longrightarrow>
    lru_setting (blocksize cfg) (dcacheSets cfg) (dcacheAssoc cfg) k (dcache_view k s) addrs \<longrightarrow>
      (\<exists>ts s'. accesses (dcache_access cfg) addrs s = Inr (ts, s') \<and>
         set (l1d_tag_storage s' ! k) =
           stored_tag (blocksize cfg) (dcacheSets cfg) ` set (tl addrs) \<and>
         stored_tag (blocksize cfg) (dcacheSets cfg) (hd addrs) \<notin> set (l1d_tag_storage s' ! k)) \<and>
      (j < unat (dcacheAssoc cfg) \<longrightarrow> 2 \<le> unat (dcacheAssoc cfg) \<longrightarrow>
         (\<exists>ts s'. accesses (dcache_access cfg) (butlast addrs @ [addrs ! j, last addrs]) s
                    = Inr (ts, s') \<and>
            stored_tag (blocksize cfg) (dcacheSets cfg) (addrs ! j)
              \<in> set (l1d_tag_storage s' ! k))))"
proof (intro conjI impI)
  assume a: "hierarchy_ok cfg s"
    "lru_setting (blocksize cfg) (l2cacheSets cfg) (l2cacheAssoc cfg) k (l2_view k s) addrs"
  from a show "\<exists>ts s'. accesses (l2cache_access cfg) addrs s = Inr (ts, s') \<and>
         set (l2_tag_storage s' ! k) =
           stored_tag (blocksize cfg) (l2cacheSets cfg) ` set (tl addrs) \<and>
         stored_tag (blocksize cfg) (l2cacheSets cfg) (hd addrs) \<notin> set (l2_tag_storage s' ! k)"
    by (rule l2_lru(1))
  assume "j < unat (l2cacheAssoc cfg)" "2 \<le> unat (l2cacheAssoc cfg)"
  with a show "\<exists>ts s'. accesses (l2cache_access cfg) (butlast addrs @ [addrs ! j, last addrs]) s
                    = Inr (ts, s') \<and>
            stored_tag (blocksize cfg) (l2cacheSets cfg) (addrs ! j)
              \<in> set (l2_tag_storage s' ! k)"
    by (rule l2_lru(2))
next
  assume a: "hierarchy_ok cfg s" "inclusive cfg = 0"
    "level_defined cfg (l2cacheSets cfg) (l2cacheAssoc cfg)"
    "lru_setting (blocksize cfg) (icacheSets cfg) (icacheAssoc cfg) k (icache_view k s) addrs"
  from a show "\<exists>ts s'. accesses (icache_access cfg) addrs s = Inr (ts, s') \<and>
         set (l1i_tag_storage s' ! k) =
           stored_tag (blocksize cfg) (icacheSets cfg) ` set (tl addrs) \<and>
         stored_tag (blocksize cfg) (icacheSets cfg) (hd addrs) \<notin> set (l1i_tag_storage s' ! k)"
    by (rule icache_lru(1))
  assume "j < unat (icacheAssoc cfg)" "2 \<le> unat (icacheAssoc cfg)"
  with a show "\<exists>ts s'. accesses (icache_access cfg) (butlast addrs @ [addrs ! j, last addrs]) s
                    = Inr (ts, s') \<and>
            stored_tag (blocksize cfg) (icacheSets cfg) (addrs ! j)
              \<in> set (l1i_tag_storage s' ! k)"
    by (rule icache_lru(2))
next
  assume a: "hierarchy_ok cfg s" "inclusive cfg = 0"
    "level_defined cfg (l2cacheSets cfg) (l2cacheAssoc cfg)"
    "lru_setting (blocksize cfg) (dcacheSets cfg) (dcacheAssoc cfg) k (dcache_view k s) addrs"
  from a show "\<exists>ts s'. accesses (dcache_access cfg) addrs s = Inr (ts, s') \<and>
         set (l1d_tag_storage s' ! k) =
           stored_tag (blocksize cfg) (dcacheSets cfg) ` set (tl addrs) \<and>
         stored_tag (blocksize cfg) (dcacheSets cfg) (hd addrs) \<notin> set (l1d_tag_storage s' ! k)"
    by (rule dcache_lru(1))
  assume "j < unat (dcacheAssoc cfg)" "2 \<le> unat (dcacheAssoc cfg)"
  with a show "\<exists>ts s'. accesses (dcache_access cfg) (butlast addrs @ [addrs ! j, last addrs]) s
                    = Inr (ts, s') \<and>
            stored_tag (blocksize cfg) (dcacheSets cfg) (addrs ! j)
              \<in> set (l1d_tag_storage s' ! k)"
    by (rule dcache_lru(2))
qed

theorem lru_replacement_witness:
  "hierarchy_ok lru_cfg (init_cache lru_cfg program_start) \<and>
   inclusive lru_cfg = 0 \<and>
   level_defined lru_cfg (l2cacheSets lru_cfg) (l2cacheAssoc lru_cfg) \<and>
   lru_setting (blocksize lru_cfg) (l2cacheSets lru_cfg) (l2cacheAssoc lru_cfg) 0
     (l2_view 0 (init_cache lru_cfg program_start)) [0, 8, 16] \<and>
   lru_setting (blocksize lru_cfg) (icacheSets lru_cfg) (icacheAssoc lru_cfg) 0
     (icache_view 0 (init_cache lru_cfg program_start)) [0, 8, 16] \<and>
   lru_setting (blocksize lru_cfg) (dcacheSets lru_cfg) (dcacheAssoc lru_cfg) 0
     (dcache_view 0 (init_cache lru_cfg program_start)) [0, 8, 16] \<and>
   (1 :: nat) < unat (l2cacheAssoc lru_cfg) \<and> 2 \<le> unat (l2cacheAssoc lru_cfg) \<and>
   (1 :: nat) < unat (icacheAssoc lru_cfg) \<and> 2 \<le> unat (icacheAssoc lru_cfg) \<and>
   (1 :: nat) < unat (dcacheAssoc lru_cfg) \<and> 2 \<le> unat (dcacheAssoc lru_cfg) \<and>
   (\<exists>ts s'. accesses (l2cache_access lru_cfg) [0, 8, 16] (init_cache lru_cfg program_start)
               = Inr (ts, s') \<and>
      set (l2_tag_storage s' ! 0) =
        stored_tag (blocksize lru_cfg) (l2cacheSets lru_cfg) ` set (tl [0, 8, 16]) \<and>
      stored_tag (blocksize lru_cfg) (l2cacheSets lru_cfg) (hd [0, 8, 16])
        \<notin> set (l2_tag_storage s' ! 0)) \<and>
   (\<exists>ts s'. accesses (l2cache_access lru_cfg) (butlast [0, 8, 16] @ [[0, 8, 16] ! 1, last [0, 8, 16]])
               (init_cache lru_cfg program_start) = Inr (ts, s') \<and>
      stored_tag (blocksize lru_cfg) (l2cacheSets lru_cfg) ([0, 8, 16] ! 1)
        \<in> set (l2_tag_storage s' ! 0)) \<and>
   (\<exists>ts s'. accesses (icache_access lru_cfg) [0, 8, 16] (init_cache lru_cfg program_start)
               = Inr (ts, s') \<and>
      set (l1i_tag_storage s' ! 0) =
        stored_tag (blocksize lru_cfg) (icacheSets lru_cfg) ` set (tl [0, 8, 16]) \<and>
      stored_tag (blocksize lru_cfg) (icacheSets lru_cfg) (hd [0, 8, 16])
        \<notin> set (l1i_tag_storage s' ! 0)) \<and>
   (\<exists>ts s'. accesses (icache_access lru_cfg) (butlast [0, 8, 16] @ [[0, 8, 16] ! 1, last [0, 8, 16]])
               (init_cache lru_cfg program_start) = Inr (ts, s') \<and>
      stored_tag (blocksize lru_cfg) (icacheSets lru_cfg) ([0, 8, 16] ! 1)
        \<in> set (l1i_tag_storage s' ! 0)) \<and>
   (\<exists>ts s'. accesses (dcache_access lru_cfg) [0, 8, 16] (init_cache lru_cfg program_start)
               = Inr (ts, s') \<and>
      set (l1d_tag_storage s' ! 0) =
        stored_tag (blocksize lru_cfg) (dcacheSets lru_cfg) ` set (tl [0, 8, 16]) \<and>
      stored_tag (blocksize lru_cfg) (dcacheSets lru_cfg) (hd [0, 8, 16])
        \<notin> set (l1d_tag_storage s' ! 0)) \<and>
   (\<exists>ts s'. accesses (dcache_access lru_cfg) (butlast [0, 8, 16] @ [[0, 8, 16] ! 1, last [0, 8, 16]])
               (init_cache lru_cfg program_start) = Inr (ts, s') \<and>
      stored_tag (blocksize lru_cfg) (dcacheSets lru_cfg) ([0, 8, 16] ! 1)
        \<in> set (l1d_tag_storage s' ! 0))"
proof -
  let ?s = "init_cache lru_cfg program_start"
  have ok: "hierarchy_ok lru_cfg ?s" by (rule hierarchy_ok_init)
  have off: "inclusive lru_cfg = 0" by code_simp
  have l2d: "level_defined lru_cfg (l2cacheSets lru_cfg) (l2cacheAssoc lru_cfg)" by code_simp
  have s2: "lru_setting (blocksize lru_cfg) (l2cacheSets lru_cfg) (l2cacheAssoc lru_cfg) 0
     (l2_view 0 ?s) [0, 8, 16]" by code_simp
  have si: "lru_setting (blocksize lru_cfg) (icacheSets lru_cfg) (icacheAssoc lru_cfg) 0
     (icache_view 0 ?s) [0, 8, 16]" by code_simp
  have sd: "lru_setting (blocksize lru_cfg) (dcacheSets lru_cfg) (dcacheAssoc lru_cfg) 0
     (dcache_view 0 ?s) [0, 8, 16]" by code_simp
  have j2: "(1 :: nat) < unat (l2cacheAssoc lru_cfg)" "2 \<le> unat (l2cacheAssoc lru_cfg)"
    by (simp_all add: lru_cfg_def)
  have ji: "(1 :: nat) < unat (icacheAssoc lru_cfg)" "2 \<le> unat (icacheAssoc lru_cfg)"
    by (simp_all add: lru_cfg_def)
  have jd: "(1 :: nat) < unat (dcacheAssoc lru_cfg)" "2 \<le> unat (dcacheAssoc lru_cfg)"
    by (simp_all add: lru_cfg_def)
  note T = lru_replacement [of lru_cfg ?s 0 "[0, 8, 16]" 1]
  note T2 = T [THEN conjunct1, rule_format, OF ok s2]
  note Ti = T [THEN conjunct2, THEN conjunct1, rule_format, OF ok off l2d si]
  note Td = T [THEN conjunct2, THEN conjunct2, rule_format, OF ok off l2d sd]
  show ?thesis
    using ok off l2d s2 si sd j2 ji jd
      T2 [THEN conjunct1] T2 [THEN conjunct2, rule_format, OF j2]
      Ti [THEN conjunct1] Ti [THEN conjunct2, rule_format, OF ji]
      Td [THEN conjunct1] Td [THEN conjunct2, rule_format, OF jd]
    by (intro conjI)
qed

end
